theory Spec2Isabelle
  imports Main "HOL-Library.Word"
begin

section \<open>Values, exceptions and files\<close>

text \<open>
  The program is \<^verbatim>\<open>tableau-backup.py\<close>, one class \<^verbatim>\<open>TableauBackup\<close>. Its methods are
  embedded as functions over an explicit world (the files on disk and the actions taken so
  far). An exception is a value of \<open>exn\<close>; a method that may raise returns \<open>exn + 'a\<close>
  together with the world it leaves behind.
\<close>

type_synonym bytes = "8 word list"

text \<open>
  The exceptions the code and its collaborators raise. All but \<open>KeyboardInterrupt\<close> derive
  from Python's \<^verbatim>\<open>Exception\<close>; \<open>KeyboardInterrupt\<close> stands for the ones that derive from
  \<^verbatim>\<open>BaseException\<close> only, which \<^verbatim>\<open>except Exception\<close> does not catch.
\<close>

datatype exn =
    ServerResponseError
  | KeyError string
  | AttributeError
  | TypeError
  | IndexError
  | ValueError
  | FileExistsError
  | NotADirectoryError
  | IsADirectoryError
  | OSError
  | GitCommandError
  | OtherException
  | KeyboardInterrupt

definition is_Exception :: "exn \<Rightarrow> bool" where
  "is_Exception e = (e \<noteq> KeyboardInterrupt)"

text \<open>
  The file system maps a path string to what examining it gives: nothing there (\<open>None\<close>), a
  regular file with its bytes, a directory, or an error of the operating system that pathlib
  does not swallow (the name is too long for the file system, a directory on the way may not
  be searched). For a path of the last kind \<^verbatim>\<open>os.stat\<close>, \<^verbatim>\<open>open\<close> and \<^verbatim>\<open>mkdir\<close> raise \<^verbatim>\<open>OSError\<close>.
\<close>

datatype node = File bytes | Dir | Unexaminable

type_synonym fs = "string \<rightharpoonup> node"

datatype level = INFO | WARNING | ERROR

datatype kind = Workbook | Datasource

text \<open>The log messages of the program, one constructor per format string.\<close>

datatype message =
    SkippingExisting kind string
  | Downloaded kind string
  | AccessDenied string string exn
  | FailedToDownload kind string exn
  | ConnectedToTableau
  | FailedToConnect exn
  | ClonedRepository
  | BackupFailed exn
  | CommittedAndPushed
  | FailedToCommitPush exn

text \<open>
  A call of a function declared \<^verbatim>\<open>async def\<close> runs none of its body: it returns a coroutine
  object, and the body runs when that object is awaited. \<open>coroutine\<close> is such a suspended
  call with its arguments.
\<close>

datatype coroutine =
    DownloadWorkbookCall string string string string
  | DownloadDatasourceCall string string string string
  | CreateAndFillCall string string "string option"

fun call_directory :: "coroutine \<Rightarrow> string" where
  "call_directory (DownloadWorkbookCall directory content_id content_name username) = directory"
| "call_directory (DownloadDatasourceCall directory content_id content_name username) = directory"
| "call_directory (CreateAndFillCall base_directory child_id username) = base_directory"

text \<open>The actions of a run, in program order.\<close>

datatype event =
    Log level message
  | SignIn
  | SignOut
  | Clone string string
  | Submit coroutine
  | Result coroutine
  | GitAdd
  | GitCommit string string string
  | GitPush

record world =
  files :: fs
  events :: "event list"

definition logging :: "level \<Rightarrow> message \<Rightarrow> world \<Rightarrow> world" where
  "logging l m w = w\<lparr>events := events w @ [Log l m]\<rparr>"

section \<open>Paths (pathlib, POSIX flavour)\<close>

text \<open>
  \<^verbatim>\<open>Path(s)\<close> keeps a root (\<^verbatim>\<open>''\<close>, \<^verbatim>\<open>'/'\<close>, or \<^verbatim>\<open>'//'\<close> for exactly two leading slashes)
  and the components of \<open>s\<close> between slashes, without the empty ones and the \<^verbatim>\<open>'.'\<close> ones.
\<close>

record path =
  root :: string
  tail :: "string list"

fun split :: "char \<Rightarrow> string \<Rightarrow> string list" where
  "split c [] = [[]]"
| "split c (x # xs) =
     (if x = c then [] # split c xs
      else (x # hd (split c xs)) # tl (split c xs))"

fun join :: "char \<Rightarrow> string list \<Rightarrow> string" where
  "join c [] = []"
| "join c [x] = x"
| "join c (x # y # ys) = x @ c # join c (y # ys)"

definition posix_root :: "string \<Rightarrow> string" where
  "posix_root s =
     (if take 1 s \<noteq> ''/'' then ''''
      else if take 2 s = ''//'' \<and> take 3 s \<noteq> ''///'' then ''//''
      else ''/'')"

definition Path :: "string \<Rightarrow> path" where
  "Path s = \<lparr>root = posix_root s,
            tail = filter (\<lambda>x. x \<noteq> [] \<and> x \<noteq> ''.'') (split CHR ''/'' s)\<rparr>"

text \<open>\<^verbatim>\<open>p / s\<close>: an absolute \<open>s\<close> replaces \<open>p\<close>, any other is appended.\<close>

definition joinpath :: "path \<Rightarrow> string \<Rightarrow> path" where
  "joinpath p s =
     (if take 1 s = ''/'' then Path s else p\<lparr>tail := tail p @ tail (Path s)\<rparr>)"

definition str_path :: "path \<Rightarrow> string" where
  "str_path p =
     (if root p = [] \<and> tail p = [] then ''.'' else root p @ join CHR ''/'' (tail p))"

text \<open>
  A single path component: not empty, not \<^verbatim>\<open>'.'\<close>, without a slash. A well-formed path has
  one of the three roots and components only; \<open>Path\<close> builds such paths.
\<close>

definition component :: "string \<Rightarrow> bool" where
  "component s = (s \<noteq> [] \<and> s \<noteq> ''.'' \<and> CHR ''/'' \<notin> set s)"

text \<open>
  The name of an entry of a directory: a component other than \<^verbatim>\<open>'..'\<close>, which pathlib keeps
  in a path and which names the parent of the directory before it.
\<close>

definition entry_name :: "string \<Rightarrow> bool" where
  "entry_name s = (component s \<and> s \<noteq> ''..'')"

definition wf_path :: "path \<Rightarrow> bool" where
  "wf_path p = (root p \<in> {[], ''/'', ''//''} \<and> (\<forall>x \<in> set (tail p). component x))"

text \<open>\<^verbatim>\<open>s.replace(' ', '_')\<close>\<close>

definition replace_spaces :: "string \<Rightarrow> string" where
  "replace_spaces s = map (\<lambda>c. if c = CHR '' '' then CHR ''_'' else c) s"

text \<open>
  \<^verbatim>\<open>directory.mkdir(parents=True, exist_ok=True)\<close>: every ancestor of the path, and the path
  itself, becomes a directory; a regular file in the way, or a path that cannot be examined,
  raises and nothing is created.
\<close>

definition ancestors :: "path \<Rightarrow> string list" where
  "ancestors p = map (\<lambda>k. str_path (p\<lparr>tail := take k (tail p)\<rparr>)) [1..<Suc (length (tail p))]"

fun mkdirs :: "string list \<Rightarrow> fs \<Rightarrow> exn + fs" where
  "mkdirs [] f = Inr f"
| "mkdirs (a # as) f =
     (case f a of
        Some (File b) \<Rightarrow> Inl (if as = [] then FileExistsError else NotADirectoryError)
      | Some Unexaminable \<Rightarrow> Inl OSError
      | _ \<Rightarrow> mkdirs as (f(a \<mapsto> Dir)))"

definition mkdir :: "path \<Rightarrow> fs \<Rightarrow> exn + fs" where
  "mkdir p f = mkdirs (ancestors p) f"

section \<open>Configuration and collaborators\<close>

text \<open>
  The configuration is the dictionary read from YAML, one field per key; a key may be missing
  (\<open>None\<close>) and
  \<^verbatim>\<open>overwrite_existing\<close> is used by its truth value only.
\<close>

datatype yaml = YNull | YBool bool | YInt int | YStr string

fun truthy :: "yaml \<Rightarrow> bool" where
  "truthy YNull = False"
| "truthy (YBool b) = b"
| "truthy (YInt i) = (i \<noteq> 0)"
| "truthy (YStr s) = (s \<noteq> [])"

text \<open>\<^verbatim>\<open>d.get(key, default)\<close>, on the entry found under the key.\<close>

definition dict_get :: "'a option \<Rightarrow> 'a \<Rightarrow> 'a" where
  "dict_get entry d = (case entry of None \<Rightarrow> d | Some v \<Rightarrow> v)"

record config =
  cfg_overwrite_existing :: "yaml option"
  cfg_tableau_server :: "string option"
  cfg_git_repo :: "string option"
  cfg_base_dir :: "string option"
  cfg_git_author :: "(string option \<times> string option) option"

text \<open>
  The remote service: \<^verbatim>\<open>server.workbooks.download\<close> and \<^verbatim>\<open>server.datasources.download\<close>
  take a content id and a target path and act on the file system in a way the program does
  not control; either may raise, after having written or not.
\<close>

type_synonym download = "string \<Rightarrow> string \<Rightarrow> fs \<Rightarrow> exn option \<times> fs"

record server =
  workbooks_download :: download
  datasources_download :: download

section \<open>Fingerprints and the download decision\<close>

text \<open>
  \<^verbatim>\<open>hashlib.md5\<close> is a library function: it is a parameter \<open>md5\<close> giving the 128-bit digest
  of a byte string. \<open>hexdigest\<close> writes the sixteen bytes of a digest as two lowercase
  hexadecimal digits each.
\<close>

definition hex_digit :: "nat \<Rightarrow> char" where
  "hex_digit n = ''0123456789abcdef'' ! (n mod 16)"

definition hex_byte :: "8 word \<Rightarrow> string" where
  "hex_byte b = [hex_digit (unat b div 16), hex_digit (unat b mod 16)]"

definition hexdigest :: "128 word \<Rightarrow> string" where
  "hexdigest d = concat (map (\<lambda>i. hex_byte (ucast (drop_bit (8 * (15 - i)) d))) [0..<16])"

text \<open>
  \<^verbatim>\<open>Path(p).exists()\<close>: \<^verbatim>\<open>os.stat\<close> is asked; "nothing there" is \<open>False\<close>, any other error is
  raised again.
\<close>

definition path_exists :: "fs \<Rightarrow> string \<Rightarrow> exn + bool" where
  "path_exists f p =
     (case f p of
        None \<Rightarrow> Inr False
      | Some Unexaminable \<Rightarrow> Inl OSError
      | Some n \<Rightarrow> Inr True)"

text \<open>
  \<^verbatim>\<open>calculate_file_hash\<close>: the empty string for a path that names nothing, the digest of the
  bytes for a regular file; \<^verbatim>\<open>open\<close> raises for a directory and for whatever else it cannot
  read.
\<close>

definition calculate_file_hash :: "(bytes \<Rightarrow> 128 word) \<Rightarrow> fs \<Rightarrow> string \<Rightarrow> exn + string" where
  "calculate_file_hash md5 f filepath =
     (case path_exists f filepath of
        Inl e \<Rightarrow> Inl e
      | Inr found \<Rightarrow>
          if \<not> found then Inr ''''
          else
            (case f filepath of
               Some (File b) \<Rightarrow> Inr (hexdigest (md5 b))
             | Some Dir \<Rightarrow> Inl IsADirectoryError
             | _ \<Rightarrow> Inl OSError))"

text \<open>
  \<^verbatim>\<open>should_download_file\<close>: \<^verbatim>\<open>and\<close> asks for the path only when overwriting is off, and an
  error of \<^verbatim>\<open>exists()\<close> leaves the method as an exception.
\<close>

definition should_download_file :: "config \<Rightarrow> fs \<Rightarrow> string \<Rightarrow> string \<Rightarrow> exn + bool" where
  "should_download_file cfg f filepath content_id =
     (if \<not> truthy (dict_get (cfg_overwrite_existing cfg) (YBool False))
      then
        (case path_exists f filepath of
           Inl e \<Rightarrow> Inl e
         | Inr found \<Rightarrow> if found then Inr False else Inr True)
      else Inr True)"

section \<open>Fetching one content item\<close>

text \<open>
  A fetch asks \<^verbatim>\<open>should_download_file\<close> before its \<^verbatim>\<open>try\<close>, so an exception of that call
  leaves the fetch. \<open>try_download\<close> is the body of the \<^verbatim>\<open>try\<close> block of \<^verbatim>\<open>download_workbook\<close>
  and \<^verbatim>\<open>download_datasource\<close>: hash, download, hash again, compare. \<open>srv\<close> is \<^verbatim>\<open>self.server\<close>, which is \<^verbatim>\<open>None\<close> until
  \<^verbatim>\<open>connect_to_tableau\<close> has set it.
\<close>

definition try_download ::
  "(bytes \<Rightarrow> 128 word) \<Rightarrow> (server \<Rightarrow> download) \<Rightarrow> server option \<Rightarrow> string \<Rightarrow> string \<Rightarrow> world
     \<Rightarrow> (exn + bool) \<times> world" where
  "try_download md5 which srv content_id filepath w =
     (case calculate_file_hash md5 (files w) filepath of
        Inl e \<Rightarrow> (Inl e, w)
      | Inr original_hash \<Rightarrow>
          (case srv of
             None \<Rightarrow> (Inl AttributeError, w)
           | Some s \<Rightarrow>
               (case which s content_id filepath (files w) of
                  (Some e, f') \<Rightarrow> (Inl e, w\<lparr>files := f'\<rparr>)
                | (None, f') \<Rightarrow>
                    (case calculate_file_hash md5 f' filepath of
                       Inl e \<Rightarrow> (Inl e, w\<lparr>files := f'\<rparr>)
                     | Inr new_hash \<Rightarrow> (Inr (original_hash \<noteq> new_hash), w\<lparr>files := f'\<rparr>)))))"

definition workbook_filepath :: "string \<Rightarrow> string \<Rightarrow> path" where
  "workbook_filepath directory workbook_name = joinpath (Path directory) (workbook_name @ ''.twbx'')"

definition datasource_filepath :: "string \<Rightarrow> string \<Rightarrow> path" where
  "datasource_filepath directory datasource_name =
     joinpath (Path directory) (datasource_name @ ''.tdsx'')"

definition download_workbook ::
  "config \<Rightarrow> (bytes \<Rightarrow> 128 word) \<Rightarrow> server option \<Rightarrow> string \<Rightarrow> string \<Rightarrow> string \<Rightarrow> string \<Rightarrow> world
     \<Rightarrow> (exn + bool) \<times> world" where
  "download_workbook cfg md5 srv directory workbook_id workbook_name username w =
     (let filepath = str_path (workbook_filepath directory workbook_name) in
      case should_download_file cfg (files w) filepath workbook_id of
        Inl e \<Rightarrow> (Inl e, w)
      | Inr should \<Rightarrow>
          if \<not> should
          then (Inr False, logging INFO (SkippingExisting Workbook workbook_name) w)
          else
            (case try_download md5 workbooks_download srv workbook_id filepath w of
               (Inr changed, w') \<Rightarrow>
                 if changed then (Inr True, logging INFO (Downloaded Workbook workbook_name) w')
                 else (Inr False, w')
             | (Inl e, w') \<Rightarrow>
                 if e = ServerResponseError
                 then (Inr False, logging WARNING (AccessDenied username workbook_name e) w')
                 else if is_Exception e
                 then (Inr False, logging ERROR (FailedToDownload Workbook workbook_name e) w')
                 else (Inl e, w')))"

definition download_datasource ::
  "config \<Rightarrow> (bytes \<Rightarrow> 128 word) \<Rightarrow> server option \<Rightarrow> string \<Rightarrow> string \<Rightarrow> string \<Rightarrow> string \<Rightarrow> world
     \<Rightarrow> (exn + bool) \<times> world" where
  "download_datasource cfg md5 srv directory datasource_id datasource_name username w =
     (let filepath = str_path (datasource_filepath directory datasource_name) in
      case should_download_file cfg (files w) filepath datasource_id of
        Inl e \<Rightarrow> (Inl e, w)
      | Inr should \<Rightarrow>
          if \<not> should
          then (Inr False, logging INFO (SkippingExisting Datasource datasource_name) w)
          else
            (case try_download md5 datasources_download srv datasource_id filepath w of
               (Inr changed, w') \<Rightarrow>
                 if changed then (Inr True, logging INFO (Downloaded Datasource datasource_name) w')
                 else (Inr False, w')
             | (Inl e, w') \<Rightarrow>
                 if e = ServerResponseError
                 then (Inr False, logging WARNING (AccessDenied username datasource_name e) w')
                 else if is_Exception e
                 then (Inr False, logging ERROR (FailedToDownload Datasource datasource_name e) w')
                 else (Inl e, w')))"


section \<open>Project dictionaries\<close>

text \<open>
  A project is a Python dictionary from string keys to values; the values that occur are
  \<^verbatim>\<open>None\<close>, a string, a list of strings and a list of pairs of strings. \<open>getitem\<close> is
  \<^verbatim>\<open>d[key]\<close>, \<open>iterate\<close> is what a \<^verbatim>\<open>for\<close> loop sees, \<open>replace\<close> is \<^verbatim>\<open>v.replace(' ', '_')\<close> and
  \<open>subscript\<close> is \<^verbatim>\<open>content[i]\<close>; each raises as Python does on a value of the wrong shape.
\<close>

datatype pyval = PyNone | PyStr string | PyStrs "string list" | PyPairs "(string \<times> string) list"

datatype pyelem = EStr string | EPair string string

type_synonym pydict = "(string \<times> pyval) list"

definition getitem :: "pydict \<Rightarrow> string \<Rightarrow> exn + pyval" where
  "getitem d k = (case map_of d k of None \<Rightarrow> Inl (KeyError k) | Some v \<Rightarrow> Inr v)"

fun iterate :: "pyval \<Rightarrow> exn + pyelem list" where
  "iterate PyNone = Inl TypeError"
| "iterate (PyStr s) = Inr (map (\<lambda>c. EStr [c]) s)"
| "iterate (PyStrs xs) = Inr (map EStr xs)"
| "iterate (PyPairs ps) = Inr (map (\<lambda>(a, b). EPair a b) ps)"

fun replace :: "pyval \<Rightarrow> exn + string" where
  "replace (PyStr s) = Inr (replace_spaces s)"
| "replace v = Inl AttributeError"

fun subscript :: "pyelem \<Rightarrow> nat \<Rightarrow> exn + string" where
  "subscript (EPair a b) i = (if i = 0 then Inr a else if i = 1 then Inr b else Inl IndexError)"
| "subscript (EStr s) i = (if i < length s then Inr [s ! i] else Inl IndexError)"

section \<open>Visiting one project\<close>

text \<open>
  \<^verbatim>\<open>executor.submit(self.download_workbook, directory, content[1], content[0], username)\<close>
  evaluates the arguments and has a worker call the method. The method is declared
  \<^verbatim>\<open>async def\<close>, so the worker's call returns a coroutine object, which becomes the result of
  the future: the body of the download, modelled above, is not run by it.
\<close>

fun submit :: "string \<Rightarrow> string \<Rightarrow> kind \<times> pyelem \<Rightarrow> exn + coroutine" where
  "submit directory username (content_type, content) =
     (case subscript content 1 of
        Inl e \<Rightarrow> Inl e
      | Inr content_id \<Rightarrow>
          (case subscript content 0 of
             Inl e \<Rightarrow> Inl e
           | Inr content_name \<Rightarrow>
               Inr (case content_type of
                      Workbook \<Rightarrow> DownloadWorkbookCall directory content_id content_name username
                    | Datasource \<Rightarrow>
                        DownloadDatasourceCall directory content_id content_name username)))"

fun submit_all :: "string \<Rightarrow> string \<Rightarrow> (kind \<times> pyelem) list \<Rightarrow> exn + coroutine list" where
  "submit_all directory username [] = Inr []"
| "submit_all directory username (t # ts) =
     (case submit directory username t of
        Inl e \<Rightarrow> Inl e
      | Inr future \<Rightarrow>
          (case submit_all directory username ts of
             Inl e \<Rightarrow> Inl e
           | Inr futures \<Rightarrow> Inr (future # futures)))"

definition project_directory :: "string \<Rightarrow> string \<Rightarrow> path" where
  "project_directory base_dir name = joinpath (Path base_dir) (replace_spaces name)"

text \<open>
  \<^verbatim>\<open>process_project_content\<close>. \<^verbatim>\<open>ThreadPoolExecutor(max_workers=n)\<close> raises \<^verbatim>\<open>ValueError\<close> for
  \<open>n \<le> 0\<close>. The results are the futures' results in the order of submission
  (\<^verbatim>\<open>as_completed\<close> fixes no order, and no caller reads the list).
\<close>

definition process_project_content ::
  "int \<Rightarrow> pydict \<Rightarrow> string \<Rightarrow> string \<Rightarrow> world \<Rightarrow> (exn + coroutine list) \<times> world" where
  "process_project_content max_workers project base_dir username w =
     (case getitem project ''Name'' of
        Inl e \<Rightarrow> (Inl e, w)
      | Inr v \<Rightarrow>
     (case replace v of
        Inl e \<Rightarrow> (Inl e, w)
      | Inr name \<Rightarrow>
     (let directory = joinpath (Path base_dir) name in
      case mkdir directory (files w) of
        Inl e \<Rightarrow> (Inl e, w)
      | Inr f' \<Rightarrow>
     (let w' = w\<lparr>files := f'\<rparr> in
      case getitem project ''Workbooks'' of
        Inl e \<Rightarrow> (Inl e, w')
      | Inr wv \<Rightarrow>
     (case iterate wv of
        Inl e \<Rightarrow> (Inl e, w')
      | Inr workbooks \<Rightarrow>
     (case getitem project ''Datasources'' of
        Inl e \<Rightarrow> (Inl e, w')
      | Inr dv \<Rightarrow>
     (case iterate dv of
        Inl e \<Rightarrow> (Inl e, w')
      | Inr datasources \<Rightarrow>
     (let download_tasks = map (Pair Workbook) workbooks @ map (Pair Datasource) datasources in
      if max_workers \<le> 0 then (Inl ValueError, w')
      else
        (case submit_all (str_path directory) username download_tasks of
           Inl e \<Rightarrow> (Inl e, w')
         | Inr results \<Rightarrow> (Inr results, w'))))))))))"

section \<open>Walking the project tree\<close>

type_synonym index = "string \<rightharpoonup> pydict"

definition child_dirs :: "pydict \<Rightarrow> exn + pyelem list" where
  "child_dirs proj = (case getitem proj ''Child Dirs'' of Inl e \<Rightarrow> Inl e | Inr v \<Rightarrow> iterate v)"

text \<open>
  The loop over the children. A child that is a pair is no key of the index (the keys are
  strings): for it \<^verbatim>\<open>alle_ordner.get(child)\<close> is \<^verbatim>\<open>None\<close> and the call returns at once.
  \<open>None\<close> is a call that does not return.
\<close>

fun for_children ::
  "(string \<Rightarrow> world \<Rightarrow> ((exn + unit) \<times> world) option) \<Rightarrow> pyelem list \<Rightarrow> world
     \<Rightarrow> ((exn + unit) \<times> world) option" where
  "for_children visit [] w = Some (Inr (), w)"
| "for_children visit (EPair a b # children) w = for_children visit children w"
| "for_children visit (EStr child # children) w =
     (case visit child w of
        None \<Rightarrow> None
      | Some (Inl e, w') \<Rightarrow> Some (Inl e, w')
      | Some (Inr u, w') \<Rightarrow> for_children visit children w')"

text \<open>
  \<^verbatim>\<open>create_and_fill_child_dir\<close>, awaited. The recursion of the source has no bound, so the
  first argument counts the nested calls that may still be made: with none left the result
  is \<open>None\<close>, and a call that returns does so as \<open>Some\<close> for every large enough count.
  \<^verbatim>\<open>if not proj\<close> holds for \<^verbatim>\<open>None\<close> and for the empty dictionary.
\<close>

primrec create_and_fill_child_dir ::
  "nat \<Rightarrow> int \<Rightarrow> index \<Rightarrow> string \<Rightarrow> string \<Rightarrow> string \<Rightarrow> world \<Rightarrow> ((exn + unit) \<times> world) option" where
  "create_and_fill_child_dir 0 max_workers alle_ordner base_dir child_id username w = None"
| "create_and_fill_child_dir (Suc n) max_workers alle_ordner base_dir child_id username w =
     (case alle_ordner child_id of
        None \<Rightarrow> Some (Inr (), w)
      | Some proj \<Rightarrow>
          if proj = [] then Some (Inr (), w)
          else
            (case process_project_content max_workers proj base_dir username w of
               (Inl e, w') \<Rightarrow> Some (Inl e, w')
             | (Inr results, w') \<Rightarrow>
                 (case child_dirs proj of
                    Inl e \<Rightarrow> Some (Inl e, w')
                  | Inr children \<Rightarrow>
                      for_children
                        (\<lambda>child. create_and_fill_child_dir n max_workers alle_ordner base_dir child
                           username)
                        children w')))"

text \<open>
  The ids of the projects that a call of \<^verbatim>\<open>create_and_fill_child_dir\<close> visits, that is, hands
  to \<^verbatim>\<open>process_project_content\<close>, in the order of the visits. The two functions follow the
  loop and the method above step by step and keep the ids instead of the result.
\<close>

fun for_children_visits ::
  "(string \<Rightarrow> world \<Rightarrow> string list) \<Rightarrow> (string \<Rightarrow> world \<Rightarrow> ((exn + unit) \<times> world) option)
     \<Rightarrow> pyelem list \<Rightarrow> world \<Rightarrow> string list" where
  "for_children_visits visited visit [] w = []"
| "for_children_visits visited visit (EPair a b # children) w =
     for_children_visits visited visit children w"
| "for_children_visits visited visit (EStr child # children) w =
     visited child w @
     (case visit child w of
        None \<Rightarrow> []
      | Some (Inl e, w') \<Rightarrow> []
      | Some (Inr u, w') \<Rightarrow> for_children_visits visited visit children w')"

primrec visits ::
  "nat \<Rightarrow> int \<Rightarrow> index \<Rightarrow> string \<Rightarrow> string \<Rightarrow> string \<Rightarrow> world \<Rightarrow> string list" where
  "visits 0 max_workers alle_ordner base_dir child_id username w = []"
| "visits (Suc n) max_workers alle_ordner base_dir child_id username w =
     (case alle_ordner child_id of
        None \<Rightarrow> []
      | Some proj \<Rightarrow>
          if proj = [] then []
          else
            child_id #
            (case process_project_content max_workers proj base_dir username w of
               (Inl e, w') \<Rightarrow> []
             | (Inr results, w') \<Rightarrow>
                 (case child_dirs proj of
                    Inl e \<Rightarrow> []
                  | Inr children \<Rightarrow>
                      for_children_visits
                        (\<lambda>child. visits n max_workers alle_ordner base_dir child username)
                        (\<lambda>child. create_and_fill_child_dir n max_workers alle_ordner base_dir child
                           username)
                        children w')))"

text \<open>
  Finite trees of project ids. \<open>is_tree idx t\<close>: \<open>t\<close> is what the index unfolds to from its
  root id, every node a project the walk enters (present and not empty), its subtrees the
  children that the walk enters, in order. Such a tree exists exactly when the part of the
  index reachable from the root is finite and free of cycles. \<open>reachable\<close> follows the child
  edges between projects the walk enters.
\<close>

datatype tree = Node string "tree list"

fun label :: "tree \<Rightarrow> string" where
  "label (Node k ts) = k"

fun preorder :: "tree \<Rightarrow> string list" where
  "preorder (Node k ts) = k # concat (map preorder ts)"

fun height :: "tree \<Rightarrow> nat" where
  "height (Node k ts) = Suc (fold max (map height ts) 0)"

definition visitable :: "index \<Rightarrow> string \<Rightarrow> bool" where
  "visitable idx k = (case idx k of None \<Rightarrow> False | Some proj \<Rightarrow> proj \<noteq> [])"

fun child_ids :: "pyelem list \<Rightarrow> string list" where
  "child_ids [] = []"
| "child_ids (EStr k # cs) = k # child_ids cs"
| "child_ids (EPair a b # cs) = child_ids cs"

definition children_of :: "index \<Rightarrow> string \<Rightarrow> string list option" where
  "children_of idx k =
     (case idx k of
        None \<Rightarrow> None
      | Some proj \<Rightarrow>
          (case child_dirs proj of
             Inl e \<Rightarrow> None
           | Inr cs \<Rightarrow> Some (filter (visitable idx) (child_ids cs))))"

fun is_tree :: "index \<Rightarrow> tree \<Rightarrow> bool" where
  "is_tree idx (Node k ts) =
     (visitable idx k \<and> children_of idx k = Some (map label ts) \<and> (\<forall>t \<in> set ts. is_tree idx t))"

inductive reachable :: "index \<Rightarrow> string \<Rightarrow> string \<Rightarrow> bool" for idx r where
  root: "visitable idx r \<Longrightarrow> reachable idx r r"
| child: "reachable idx r k \<Longrightarrow> children_of idx k = Some cs \<Longrightarrow> c \<in> set cs \<Longrightarrow> reachable idx r c"

text \<open>The projects found in the index under a list of ids, in the order of the ids.\<close>

fun projects_at :: "index \<Rightarrow> string list \<Rightarrow> pydict list" where
  "projects_at idx [] = []"
| "projects_at idx (k # ks) =
     (case idx k of None \<Rightarrow> projects_at idx ks | Some proj \<Rightarrow> proj # projects_at idx ks)"

text \<open>Visiting a list of projects one after the other, up to the first exception.\<close>

fun process_all :: "int \<Rightarrow> string \<Rightarrow> string \<Rightarrow> pydict list \<Rightarrow> world \<Rightarrow> (exn + unit) \<times> world" where
  "process_all max_workers base_dir username [] w = (Inr (), w)"
| "process_all max_workers base_dir username (proj # projs) w =
     (case process_project_content max_workers proj base_dir username w of
        (Inl e, w') \<Rightarrow> (Inl e, w')
      | (Inr results, w') \<Rightarrow> process_all max_workers base_dir username projs w')"

text \<open>
  The ids of a list that \<open>process_all\<close> visits when it is given their projects: those up to and
  including the first whose visit raises.
\<close>

fun visited_upto :: "int \<Rightarrow> index \<Rightarrow> string \<Rightarrow> string \<Rightarrow> string list \<Rightarrow> world \<Rightarrow> string list" where
  "visited_upto max_workers idx base_dir username [] w = []"
| "visited_upto max_workers idx base_dir username (k # ks) w =
     (case idx k of
        None \<Rightarrow> visited_upto max_workers idx base_dir username ks w
      | Some proj \<Rightarrow>
          k #
          (case process_project_content max_workers proj base_dir username w of
             (Inl e, w') \<Rightarrow> []
           | (Inr results, w') \<Rightarrow> visited_upto max_workers idx base_dir username ks w'))"

section \<open>Building the project cache\<close>

text \<open>
  A project as the server lists it (\<^verbatim>\<open>id\<close>, \<^verbatim>\<open>name\<close>, \<^verbatim>\<open>parent_id\<close>). The cache is the
  dictionary comprehension of \<^verbatim>\<open>backup_tableau\<close>, in which a later project with the same id
  replaces an earlier one; the roots are the projects whose \<^verbatim>\<open>parent_id\<close> is falsy.
\<close>

record project_item =
  proj_id :: string
  proj_name :: string
  proj_parent_id :: "string option"

definition cache_entry :: "project_item \<Rightarrow> pydict" where
  "cache_entry proj =
     [(''name'', PyStr (proj_name proj)),
      (''parent_id'', case proj_parent_id proj of None \<Rightarrow> PyNone | Some p \<Rightarrow> PyStr p)]"

definition project_cache :: "project_item list \<Rightarrow> index" where
  "project_cache projects = map_of (rev (map (\<lambda>proj. (proj_id proj, cache_entry proj)) projects))"

text \<open>The truth value of an optional string: \<^verbatim>\<open>None\<close> and \<^verbatim>\<open>''\<close> are falsy.\<close>

definition str_truthy :: "string option \<Rightarrow> bool" where
  "str_truthy v = (case v of None \<Rightarrow> False | Some s \<Rightarrow> s \<noteq> [])"

definition root_projects :: "project_item list \<Rightarrow> project_item list" where
  "root_projects projects = filter (\<lambda>proj. \<not> str_truthy (proj_parent_id proj)) projects"

section \<open>The run\<close>

text \<open>
  What a run finds around it: the two environment variables, the Tableau server (creating the
  server object asks the server for its version, so it may raise), the git repository, the
  clock, and the time at which the future of a call handed to a pool completes, which the
  program does not fix and \<^verbatim>\<open>as_completed\<close> follows. A collaborator that touches only remote
  state is given by whether it raises.
\<close>

record env =
  TABLEAU_USERNAME :: "string option"
  TABLEAU_PASSWORD :: "string option"
  new_server :: "exn + server"
  sign_in :: "exn option"
  sign_out :: "exn option"
  clone_from :: "string \<Rightarrow> string \<Rightarrow> fs \<Rightarrow> exn option \<times> fs"
  list_projects :: "exn + project_item list"
  git_add :: "exn option"
  index_commit :: "exn option"
  git_push :: "exn option"
  now :: string
  completed_at :: "coroutine \<Rightarrow> nat"

definition call :: "event \<Rightarrow> world \<Rightarrow> world" where
  "call e w = w\<lparr>events := events w @ [e]\<rparr>"

text \<open>
  \<^verbatim>\<open>except Exception as e: logging.error(...); raise\<close>: the exception is logged when it derives
  from \<^verbatim>\<open>Exception\<close>, and goes on in either case.
\<close>

definition log_and_reraise :: "(exn \<Rightarrow> message) \<Rightarrow> exn option \<times> world \<Rightarrow> exn option \<times> world" where
  "log_and_reraise msg rw =
     (case rw of
        (None, w) \<Rightarrow> (None, w)
      | (Some e, w) \<Rightarrow> if is_Exception e then (Some e, logging ERROR (msg e) w) else (Some e, w))"

text \<open>
  \<^verbatim>\<open>connect_to_tableau\<close>; the second component is \<^verbatim>\<open>self.server\<close> afterwards, which is set
  before the sign-in is tried.
\<close>

definition connect_body :: "config \<Rightarrow> env \<Rightarrow> world \<Rightarrow> server option \<times> exn option \<times> world" where
  "connect_body cfg env w =
     (if \<not> str_truthy (TABLEAU_USERNAME env) \<or> \<not> str_truthy (TABLEAU_PASSWORD env)
      then (None, Some ValueError, w)
      else
        (case cfg_tableau_server cfg of
           None \<Rightarrow> (None, Some (KeyError ''tableau_server''), w)
         | Some url \<Rightarrow>
             (case new_server env of
                Inl e \<Rightarrow> (None, Some e, w)
              | Inr s \<Rightarrow>
                  (case sign_in env of
                     Some e \<Rightarrow> (Some s, Some e, call SignIn w)
                   | None \<Rightarrow> (Some s, None, logging INFO ConnectedToTableau (call SignIn w))))))"

definition connect_to_tableau :: "config \<Rightarrow> env \<Rightarrow> world \<Rightarrow> server option \<times> exn option \<times> world" where
  "connect_to_tableau cfg env w =
     (case connect_body cfg env w of (srv, rw) \<Rightarrow> (srv, log_and_reraise FailedToConnect rw))"

text \<open>\<^verbatim>\<open>_commit_and_push_changes\<close>: stage everything, commit with the configured author, push.\<close>

definition commit_body :: "config \<Rightarrow> env \<Rightarrow> world \<Rightarrow> exn option \<times> world" where
  "commit_body cfg env w =
     (case git_add env of
        Some e \<Rightarrow> (Some e, call GitAdd w)
      | None \<Rightarrow>
          (case cfg_git_author cfg of
             None \<Rightarrow> (Some (KeyError ''git_author''), call GitAdd w)
           | Some (None, email) \<Rightarrow> (Some (KeyError ''name''), call GitAdd w)
           | Some (Some name, None) \<Rightarrow> (Some (KeyError ''email''), call GitAdd w)
           | Some (Some name, Some email) \<Rightarrow>
               (let w' = call (GitCommit (''Backup '' @ now env) name email) (call GitAdd w) in
                case index_commit env of
                  Some e \<Rightarrow> (Some e, w')
                | None \<Rightarrow>
                    (case git_push env of
                       Some e \<Rightarrow> (Some e, call GitPush w')
                     | None \<Rightarrow> (None, logging INFO CommittedAndPushed (call GitPush w'))))))"

definition commit_and_push_changes :: "config \<Rightarrow> env \<Rightarrow> world \<Rightarrow> exn option \<times> world" where
  "commit_and_push_changes cfg env w = log_and_reraise FailedToCommitPush (commit_body cfg env w)"

text \<open>
  The pool of \<^verbatim>\<open>backup_tableau\<close>: one task per root project is submitted, and every future's
  result is collected, in the order of completion, before the \<^verbatim>\<open>with\<close> block is left. The submitted method is
  \<^verbatim>\<open>create_and_fill_child_dir\<close>, declared \<^verbatim>\<open>async def\<close>: a task builds the coroutine object and
  is done, so the result of each future is that object and no task acts on the world.
\<close>

definition root_calls :: "string \<Rightarrow> string option \<Rightarrow> project_item list \<Rightarrow> coroutine list" where
  "root_calls base_directory username projects =
     map (\<lambda>proj. CreateAndFillCall base_directory (proj_id proj) username) (root_projects projects)"

definition run_pool :: "env \<Rightarrow> coroutine list \<Rightarrow> world \<Rightarrow> world" where
  "run_pool env calls w =
     w\<lparr>events := events w @ map Submit calls @ map Result (sort_key (completed_at env) calls)\<rparr>"

definition backup_body :: "int \<Rightarrow> config \<Rightarrow> env \<Rightarrow> world \<Rightarrow> server option \<times> exn option \<times> world" where
  "backup_body max_workers cfg env w =
     (case connect_to_tableau cfg env w of
        (srv, Some e, w1) \<Rightarrow> (srv, Some e, w1)
      | (srv, None, w1) \<Rightarrow>
          (case cfg_git_repo cfg of
             None \<Rightarrow> (srv, Some (KeyError ''git_repo''), w1)
           | Some url \<Rightarrow>
               (case cfg_base_dir cfg of
                  None \<Rightarrow> (srv, Some (KeyError ''base_dir''), w1)
                | Some base_directory \<Rightarrow>
                    (case clone_from env url base_directory (files w1) of
                       (Some e, f') \<Rightarrow> (srv, Some e, (call (Clone url base_directory) w1)\<lparr>files := f'\<rparr>)
                     | (None, f') \<Rightarrow>
                         (let w2 = logging INFO ClonedRepository
                                     ((call (Clone url base_directory) w1)\<lparr>files := f'\<rparr>) in
                          case list_projects env of
                            Inl e \<Rightarrow> (srv, Some e, w2)
                          | Inr projects \<Rightarrow>
                              if max_workers \<le> 0 then (srv, Some ValueError, w2)
                              else
                                (srv,
                                 commit_and_push_changes cfg env
                                   (run_pool env
                                      (root_calls base_directory (TABLEAU_USERNAME env) projects)
                                      w2)))))))"

text \<open>
  \<^verbatim>\<open>backup_tableau\<close>: the body, the handler that logs and raises again, and the \<^verbatim>\<open>finally\<close>
  block, which signs out when \<^verbatim>\<open>self.server\<close> is set; an exception of the sign-out replaces
  the one that was on its way.
\<close>

definition backup_tableau :: "int \<Rightarrow> config \<Rightarrow> env \<Rightarrow> world \<Rightarrow> exn option \<times> world" where
  "backup_tableau max_workers cfg env w =
     (case backup_body max_workers cfg env w of
        (srv, rw) \<Rightarrow>
          (case log_and_reraise BackupFailed rw of
             (r, w') \<Rightarrow>
               (case srv of
                  None \<Rightarrow> (r, w')
                | Some s \<Rightarrow>
                    (case sign_out env of
                       Some e \<Rightarrow> (Some e, call SignOut w')
                     | None \<Rightarrow> (r, call SignOut w')))))"


definition task_event :: "event \<Rightarrow> bool" where
  "task_event e = (case e of Submit c \<Rightarrow> True | Result c \<Rightarrow> True | _ \<Rightarrow> False)"

text \<open>A stretch of a run in which no task is submitted or collected and nothing is staged.\<close>

definition quiet :: "event list \<Rightarrow> bool" where
  "quiet tr = (\<forall>e \<in> set tr. e \<noteq> GitAdd \<and> \<not> task_event e)"


section \<open>Example values\<close>

text \<open>
  The default configuration of \<^verbatim>\<open>_load_config\<close>, the same with overwriting switched on, an
  empty disk, and remote services that write given bytes, raise, or write and then raise.
\<close>

definition default_config :: config where
  "default_config =
     \<lparr>cfg_overwrite_existing = Some (YBool False),
      cfg_tableau_server = Some ''https://tableau.server.com'',
      cfg_git_repo = Some ''https://git.user.com/projects/test_proj'',
      cfg_base_dir = Some ''Tableau_Projects'',
      cfg_git_author = Some (Some ''User'', Some ''user@outlook.com'')\<rparr>"

definition overwrite_config :: config where
  "overwrite_config = default_config\<lparr>cfg_overwrite_existing := Some (YBool True)\<rparr>"

definition empty_world :: world where
  "empty_world = \<lparr>files = Map.empty, events = []\<rparr>"

definition writes :: "bytes \<Rightarrow> download" where
  "writes b content_id filepath f = (None, f(filepath \<mapsto> File b))"


definition writes_then_raises :: "bytes \<Rightarrow> exn \<Rightarrow> download" where
  "writes_then_raises b e content_id filepath f = (Some e, f(filepath \<mapsto> File b))"

definition server_of :: "download \<Rightarrow> server" where
  "server_of d = \<lparr>workbooks_download = d, datasources_download = d\<rparr>"

text \<open>
  The end-to-end scenario of the specification: project \<^verbatim>\<open>Sales\<close> (id 1) with the workbook
  \<^verbatim>\<open>Q1\<close> (id 101) and the child project \<^verbatim>\<open>Sales/EMEA\<close> (id 2) with the data source \<^verbatim>\<open>Region\<close>
  (id 201); project 1 also lists a child id 7 that the index does not have.
\<close>

definition sales_project :: pydict where
  "sales_project =
     [(''Name'', PyStr ''Sales''),
      (''Workbooks'', PyPairs [(''Q1'', ''101'')]),
      (''Datasources'', PyPairs []),
      (''Child Dirs'', PyStrs [''2'', ''7''])]"

definition emea_project :: pydict where
  "emea_project =
     [(''Name'', PyStr ''Sales/EMEA''),
      (''Workbooks'', PyPairs []),
      (''Datasources'', PyPairs [(''Region'', ''201'')]),
      (''Child Dirs'', PyStrs [])]"

definition scenario_index :: index where
  "scenario_index = map_of [(''1'', sales_project), (''2'', emea_project)]"

definition scenario_tree :: tree where
  "scenario_tree = Node ''1'' [Node ''2'' []]"

text \<open>The listing of the scenario, and an environment in which every collaborator succeeds.\<close>

definition scenario_listing :: "project_item list" where
  "scenario_listing =
     [\<lparr>proj_id = ''1'', proj_name = ''Sales'', proj_parent_id = None\<rparr>,
      \<lparr>proj_id = ''2'', proj_name = ''Sales/EMEA'', proj_parent_id = Some ''1''\<rparr>]"

definition good_env :: env where
  "good_env =
     \<lparr>TABLEAU_USERNAME = Some ''admin'',
      TABLEAU_PASSWORD = Some ''secret'',
      new_server = Inr (server_of (writes [1])),
      sign_in = None,
      sign_out = None,
      clone_from = (\<lambda>url base_directory f. (None, f(base_directory \<mapsto> Dir))),
      list_projects = Inr scenario_listing,
      git_add = None,
      index_commit = None,
      git_push = None,
      now = ''2024-01-01 00:00:00'',
      completed_at = (\<lambda>c. 0)\<rparr>"

text \<open>
  A disk on which the target of a workbook whose name has 300 characters cannot be examined
  (the name is longer than the file system takes), and a world in which \<^verbatim>\<open>out/Sales\<close> is a
  regular file.
\<close>

definition long_target :: string where
  "long_target = ''out/Sales/'' @ replicate 300 CHR ''a'' @ ''.twbx''"

definition name_too_long :: fs where
  "name_too_long = Map.empty(long_target \<mapsto> Unexaminable)"

definition blocked_world :: world where
  "blocked_world = \<lparr>files = [''out/Sales'' \<mapsto> File []], events = []\<rparr>"

section \<open>Fingerprints\<close>

lemma length_hexdigest: "length (hexdigest d) = 32"
  by (simp add: hexdigest_def length_concat o_def hex_byte_def sum_list_triv)

lemma hexdigest_nonempty: "hexdigest d \<noteq> []"
  using length_hexdigest [of d] by auto

lemma hex_digit_inj: "m < 16 \<Longrightarrow> n < 16 \<Longrightarrow> hex_digit m = hex_digit n \<Longrightarrow> m = n"
proof -
  assume a: "m < 16" "n < 16" "hex_digit m = hex_digit n"
  have d: "distinct ''0123456789abcdef''" by simp
  have l: "length ''0123456789abcdef'' = 16" by simp
  from a d l show ?thesis
    unfolding hex_digit_def by (simp add: nth_eq_iff_index_eq)
qed

lemma hex_byte_inj: "hex_byte a = hex_byte b \<Longrightarrow> a = b"
proof -
  assume h: "hex_byte a = hex_byte b"
  have la: "unat a < 256" and lb: "unat b < 256"
    using unsigned_less [of a, where ?'a = nat] unsigned_less [of b, where ?'a = nat] by simp_all
  from h have "hex_digit (unat a div 16) = hex_digit (unat b div 16)"
    and "hex_digit (unat a mod 16) = hex_digit (unat b mod 16)"
    by (simp_all add: hex_byte_def)
  with la lb have "unat a div 16 = unat b div 16" and "unat a mod 16 = unat b mod 16"
    by (auto intro!: hex_digit_inj simp: div_less_iff_less_mult)
  then have "unat a = unat b"
    by (metis div_mult_mod_eq)
  then show ?thesis by (rule word_unat_eq_iff [THEN iffD2])
qed

lemma hexdigest_inj: "hexdigest a = hexdigest b \<Longrightarrow> a = b"
proof -
  let ?f = "\<lambda>d i. hex_byte (ucast (drop_bit (8 * (15 - i)) (d::128 word)))"
  assume h: "hexdigest a = hexdigest b"
  have "map (?f a) [0..<16] = map (?f b) [0..<16]"
    using h unfolding hexdigest_def
    by (subst (asm) concat_eq_concat_iff) (auto simp: hex_byte_def set_zip)
  then have eq: "\<And>i. i < 16 \<Longrightarrow> (ucast (drop_bit (8 * (15 - i)) a) :: 8 word) = ucast (drop_bit (8 * (15 - i)) b)"
    by (auto dest: hex_byte_inj)
  show ?thesis
  proof (rule bit_eqI)
    fix n
    assume "possible_bit TYPE(128 word) n"
    then have n: "n < 128" by simp
    define i where "i = 15 - n div 8"
    have i: "i < 16" and k: "8 * (15 - i) + n mod 8 = n"
      using n by (simp_all add: i_def)
    from eq [OF i] have "bit (ucast (drop_bit (8 * (15 - i)) a) :: 8 word) (n mod 8)
        = bit (ucast (drop_bit (8 * (15 - i)) b) :: 8 word) (n mod 8)"
      by simp
    then show "bit a n = bit b n"
      using k by (simp add: bit_ucast_iff bit_drop_bit_eq)
  qed
qed

lemma calculate_file_hash_eq_iff:
  assumes "f p \<noteq> Some Dir \<and> f p \<noteq> Some Unexaminable" "f' p \<noteq> Some Dir \<and> f' p \<noteq> Some Unexaminable"
    and "\<And>b b'. f p = Some (File b) \<Longrightarrow> f' p = Some (File b') \<Longrightarrow> md5 b = md5 b' \<Longrightarrow> b = b'"
  shows "(calculate_file_hash md5 f p = calculate_file_hash md5 f' p) = (f p = f' p)"
  using assms hexdigest_nonempty hexdigest_nonempty [symmetric]
  by (auto simp: calculate_file_hash_def path_exists_def split: option.splits node.splits
      dest: hexdigest_inj)

lemma calculate_file_hash_same:
  "f p = f' p \<Longrightarrow> calculate_file_hash md5 f p = calculate_file_hash md5 f' p"
  by (auto simp: calculate_file_hash_def path_exists_def split: option.splits node.splits)

lemma calculate_file_hash_Inr:
  "f p \<noteq> Some Dir \<and> f p \<noteq> Some Unexaminable \<Longrightarrow> \<exists>h. calculate_file_hash md5 f p = Inr h"
  by (auto simp: calculate_file_hash_def path_exists_def split: option.splits node.splits)

lemma try_download_returns:
  assumes "which s content_id filepath (files w) = (None, f')"
    and "files w filepath \<noteq> Some Dir \<and> files w filepath \<noteq> Some Unexaminable"
    and "f' filepath \<noteq> Some Dir \<and> f' filepath \<noteq> Some Unexaminable"
  shows "try_download md5 which (Some s) content_id filepath w
     = (Inr (calculate_file_hash md5 (files w) filepath \<noteq> calculate_file_hash md5 f' filepath),
        w\<lparr>files := f'\<rparr>)"
proof -
  from assms(2) obtain h where h: "calculate_file_hash md5 (files w) filepath = Inr h"
    using calculate_file_hash_Inr by blast
  from assms(3) obtain h' where h': "calculate_file_hash md5 f' filepath = Inr h'"
    using calculate_file_hash_Inr by blast
  show ?thesis by (simp add: try_download_def h h' assms(1))
qed


text \<open>
  C6. Fingerprinting is deterministic and the sentinel is distinct: two regular files with the
  same bytes, on any disk and under any path, have the same fingerprint; a path that names
  nothing has the fingerprint \<^verbatim>\<open>""\<close>; and the fingerprint of a regular file, whatever its
  bytes, differs from the fingerprint of a path that names nothing.
\<close>

theorem fingerprint_deterministic_sentinel_distinct:
  "(f1 p1 = Some (File b) \<and> f2 p2 = Some (File b)
      \<longrightarrow> calculate_file_hash md5 f1 p1 = calculate_file_hash md5 f2 p2)
   \<and> (f0 p0 = None \<longrightarrow> calculate_file_hash md5 f0 p0 = Inr '''')
   \<and> (f0 p0 = None \<and> f1 p1 = Some (File b)
      \<longrightarrow> calculate_file_hash md5 f1 p1 \<noteq> calculate_file_hash md5 f0 p0)"
  by (simp add: calculate_file_hash_def path_exists_def hexdigest_nonempty)

theorem fingerprint_deterministic_sentinel_distinct_witness:
  "\<forall>md5. calculate_file_hash md5 [''a'' \<mapsto> File [1]] ''a'' = calculate_file_hash md5 [''b'' \<mapsto> File [1]] ''b''
     \<and> calculate_file_hash md5 Map.empty ''c'' = Inr ''''
     \<and> calculate_file_hash md5 [''a'' \<mapsto> File [1]] ''a'' \<noteq> calculate_file_hash md5 Map.empty ''c''"
proof
  fix md5 :: "bytes \<Rightarrow> 128 word"
  show "calculate_file_hash md5 [''a'' \<mapsto> File [1]] ''a'' = calculate_file_hash md5 [''b'' \<mapsto> File [1]] ''b''
     \<and> calculate_file_hash md5 Map.empty ''c'' = Inr ''''
     \<and> calculate_file_hash md5 [''a'' \<mapsto> File [1]] ''a'' \<noteq> calculate_file_hash md5 Map.empty ''c''"
    using fingerprint_deterministic_sentinel_distinct [where ?f1.0 = "[''a'' \<mapsto> File [1]]"
        and ?p1.0 = "''a''" and b = "[1]" and ?f2.0 = "[''b'' \<mapsto> File [1]]" and ?p2.0 = "''b''"
        and ?f0.0 = Map.empty and ?p0.0 = "''c''" and ?md5.0 = md5]
    by auto
qed

section \<open>The download decision\<close>

text \<open>
  C5, as amended. Overwriting is on when the configured value, or \<open>False\<close> when the key is
  missing, is truthy. For a target path that can be examined the decision is \<open>False\<close> exactly
  when overwriting is off and the path names something on disk, and \<open>True\<close> otherwise. With
  overwriting on the decision is \<open>True\<close> for every path, examined or not. With overwriting off
  and a path that cannot be examined the call raises \<^verbatim>\<open>OSError\<close>. The decision is a function of
  the configuration, the disk and its arguments that returns a truth value or raises, and
  nothing else.
\<close>

theorem should_download_file_decision:
  "(f filepath \<noteq> Some Unexaminable \<longrightarrow>
      should_download_file cfg f filepath content_id
        = Inr (\<not> (\<not> truthy (dict_get (cfg_overwrite_existing cfg) (YBool False)) \<and> f filepath \<noteq> None)))
   \<and> (truthy (dict_get (cfg_overwrite_existing cfg) (YBool False)) \<longrightarrow>
      should_download_file cfg f filepath content_id = Inr True)
   \<and> (\<not> truthy (dict_get (cfg_overwrite_existing cfg) (YBool False)) \<and> f filepath = Some Unexaminable \<longrightarrow>
      should_download_file cfg f filepath content_id = Inl OSError)"
  by (cases "f filepath"; cases "the (f filepath)")
     (simp_all add: should_download_file_def path_exists_def)

theorem should_download_file_decision_witness:
  "should_download_file default_config [''out/Sales/Q1.twbx'' \<mapsto> File []] ''out/Sales/Q1.twbx'' ''101''
     = Inr False
   \<and> should_download_file default_config Map.empty ''out/Sales/Q1.twbx'' ''101'' = Inr True
   \<and> should_download_file overwrite_config name_too_long long_target ''101'' = Inr True
   \<and> should_download_file (default_config\<lparr>cfg_overwrite_existing := None\<rparr>) name_too_long long_target ''101''
     = Inl OSError"
proof -
  have off: "\<not> truthy (dict_get (cfg_overwrite_existing default_config) (YBool False))"
    and on: "truthy (dict_get (cfg_overwrite_existing overwrite_config) (YBool False))"
    and missing: "\<not> truthy (dict_get (cfg_overwrite_existing (default_config\<lparr>cfg_overwrite_existing := None\<rparr>))
                     (YBool False))"
    by (simp_all add: default_config_def overwrite_config_def dict_get_def)
  have u: "name_too_long long_target = Some Unexaminable" by (simp add: name_too_long_def)
  show ?thesis
    using should_download_file_decision [of "[''out/Sales/Q1.twbx'' \<mapsto> File []]" "''out/Sales/Q1.twbx''"
        default_config "''101''", THEN conjunct1]
      should_download_file_decision [of Map.empty "''out/Sales/Q1.twbx''" default_config "''101''",
        THEN conjunct1]
      should_download_file_decision [of name_too_long long_target overwrite_config "''101''",
        THEN conjunct2, THEN conjunct1]
      should_download_file_decision [of name_too_long long_target
        "default_config\<lparr>cfg_overwrite_existing := None\<rparr>" "''101''", THEN conjunct2, THEN conjunct2]
      off on missing u
    by simp
qed

text \<open>
  C5 as stated fails for a target path that cannot be examined: with overwriting off, as in
  the default configuration, and a workbook name of 300 characters, \<^verbatim>\<open>Path(filepath).exists()\<close>
  raises and the decision returns neither \<open>True\<close> nor \<open>False\<close>.
\<close>

theorem decision_raises_for_unexaminable_target:
  "length long_target = 315
   \<and> name_too_long long_target = Some Unexaminable
   \<and> should_download_file default_config name_too_long long_target ''101'' = Inl OSError
   \<and> should_download_file default_config name_too_long long_target ''101'' \<noteq> Inr True
   \<and> should_download_file default_config name_too_long long_target ''101'' \<noteq> Inr False"
  by (simp add: should_download_file_def path_exists_def default_config_def dict_get_def
      name_too_long_def) (simp add: long_target_def)

text \<open>
  C10. The decision does not depend on the content identifier: with the configuration, the
  disk and the path fixed, any two identifiers give the same answer.
\<close>

theorem should_download_file_ignores_content_id:
  "should_download_file cfg f filepath content_id = should_download_file cfg f filepath content_id'"
  by (simp add: should_download_file_def)

theorem should_download_file_ignores_content_id_witness:
  "should_download_file default_config Map.empty ''out/Sales/Q1.twbx'' ''101''
     = should_download_file default_config Map.empty ''out/Sales/Q1.twbx'' ''999''"
  by (rule should_download_file_ignores_content_id)

section \<open>Fetching one content item: properties\<close>

lemma download_workbook_returns:
  assumes "should_download_file cfg (files w) (str_path (workbook_filepath directory name)) cid = Inr True"
    and "workbooks_download s cid (str_path (workbook_filepath directory name)) (files w) = (None, f')"
    and "(files w (str_path (workbook_filepath directory name)) \<noteq> Some Dir \<and> files w (str_path (workbook_filepath directory name)) \<noteq> Some Unexaminable)"
    and "(f' (str_path (workbook_filepath directory name)) \<noteq> Some Dir \<and> f' (str_path (workbook_filepath directory name)) \<noteq> Some Unexaminable)"
  shows "fst (download_workbook cfg md5 (Some s) directory cid name username w)
     = Inr (calculate_file_hash md5 (files w) (str_path (workbook_filepath directory name))
            \<noteq> calculate_file_hash md5 f' (str_path (workbook_filepath directory name)))"
proof -
  have "try_download md5 workbooks_download (Some s) cid (str_path (workbook_filepath directory name)) w
     = (Inr (calculate_file_hash md5 (files w) (str_path (workbook_filepath directory name))
            \<noteq> calculate_file_hash md5 f' (str_path (workbook_filepath directory name))), w\<lparr>files := f'\<rparr>)"
    using assms(2-4) by (rule try_download_returns)
  then show ?thesis
    using assms(1) unfolding download_workbook_def Let_def by simp
qed


lemma download_datasource_returns:
  assumes "should_download_file cfg (files w) (str_path (datasource_filepath directory name)) cid = Inr True"
    and "datasources_download s cid (str_path (datasource_filepath directory name)) (files w) = (None, f')"
    and "(files w (str_path (datasource_filepath directory name)) \<noteq> Some Dir \<and> files w (str_path (datasource_filepath directory name)) \<noteq> Some Unexaminable)"
    and "(f' (str_path (datasource_filepath directory name)) \<noteq> Some Dir \<and> f' (str_path (datasource_filepath directory name)) \<noteq> Some Unexaminable)"
  shows "fst (download_datasource cfg md5 (Some s) directory cid name username w)
     = Inr (calculate_file_hash md5 (files w) (str_path (datasource_filepath directory name))
            \<noteq> calculate_file_hash md5 f' (str_path (datasource_filepath directory name)))"
proof -
  have "try_download md5 datasources_download (Some s) cid (str_path (datasource_filepath directory name)) w
     = (Inr (calculate_file_hash md5 (files w) (str_path (datasource_filepath directory name))
            \<noteq> calculate_file_hash md5 f' (str_path (datasource_filepath directory name))), w\<lparr>files := f'\<rparr>)"
    using assms(2-4) by (rule try_download_returns)
  then show ?thesis
    using assms(1) unfolding download_datasource_def Let_def by simp
qed

lemma changed_flag_facts:
  assumes r: "r = Inr (calculate_file_hash md5 f p \<noteq> calculate_file_hash md5 f' p)"
    and d: "(f p \<noteq> Some Dir \<and> f p \<noteq> Some Unexaminable)" "(f' p \<noteq> Some Dir \<and> f' p \<noteq> Some Unexaminable)"
  shows "(f p = f' p \<longrightarrow> r = Inr False)
    \<and> (r = Inr True \<longrightarrow> f p \<noteq> f' p)
    \<and> ((\<forall>b b'. f p = Some (File b) \<and> f' p = Some (File b') \<and> md5 b = md5 b' \<longrightarrow> b = b')
         \<longrightarrow> r = Inr (f p \<noteq> f' p))"
proof (intro conjI impI)
  assume "f p = f' p"
  then have "calculate_file_hash md5 f p = calculate_file_hash md5 f' p"
    by (rule calculate_file_hash_same)
  then show "r = Inr False" unfolding r by simp
next
  assume t: "r = Inr True"
  show "f p \<noteq> f' p"
  proof
    assume "f p = f' p"
    then have "calculate_file_hash md5 f p = calculate_file_hash md5 f' p"
      by (rule calculate_file_hash_same)
    with t show False unfolding r by simp
  qed
next
  assume c: "\<forall>b b'. f p = Some (File b) \<and> f' p = Some (File b') \<and> md5 b = md5 b' \<longrightarrow> b = b'"
  have "(calculate_file_hash md5 f p = calculate_file_hash md5 f' p) = (f p = f' p)"
  proof (rule calculate_file_hash_eq_iff [of f p f' md5, OF d])
    fix b b' assume "f p = Some (File b)" "f' p = Some (File b')" "md5 b = md5 b'"
    with c show "b = b'" by blast
  qed
  then show "r = Inr (f p \<noteq> f' p)" unfolding r by simp
qed

lemma workbook_changed_flag:
  assumes "should_download_file cfg (files w) (str_path (workbook_filepath directory name)) cid = Inr True
        \<and> workbooks_download s cid (str_path (workbook_filepath directory name)) (files w) = (None, f')
        \<and> (files w (str_path (workbook_filepath directory name)) \<noteq> Some Dir \<and> files w (str_path (workbook_filepath directory name)) \<noteq> Some Unexaminable)
        \<and> (f' (str_path (workbook_filepath directory name)) \<noteq> Some Dir \<and> f' (str_path (workbook_filepath directory name)) \<noteq> Some Unexaminable)"
  shows "fst (download_workbook cfg md5 (Some s) directory cid name username w)
           = Inr (calculate_file_hash md5 (files w) (str_path (workbook_filepath directory name))
                  \<noteq> calculate_file_hash md5 f' (str_path (workbook_filepath directory name)))
     \<and> (files w (str_path (workbook_filepath directory name)) = f' (str_path (workbook_filepath directory name))
          \<longrightarrow> fst (download_workbook cfg md5 (Some s) directory cid name username w) = Inr False)
     \<and> (fst (download_workbook cfg md5 (Some s) directory cid name username w) = Inr True
          \<longrightarrow> files w (str_path (workbook_filepath directory name)) \<noteq> f' (str_path (workbook_filepath directory name)))
     \<and> ((\<forall>b b'. files w (str_path (workbook_filepath directory name)) = Some (File b)
                \<and> f' (str_path (workbook_filepath directory name)) = Some (File b') \<and> md5 b = md5 b' \<longrightarrow> b = b')
          \<longrightarrow> fst (download_workbook cfg md5 (Some s) directory cid name username w)
              = Inr (files w (str_path (workbook_filepath directory name)) \<noteq> f' (str_path (workbook_filepath directory name))))"
proof -
  from assms have a: "should_download_file cfg (files w) (str_path (workbook_filepath directory name)) cid = Inr True"
    "workbooks_download s cid (str_path (workbook_filepath directory name)) (files w) = (None, f')"
    "(files w (str_path (workbook_filepath directory name)) \<noteq> Some Dir \<and> files w (str_path (workbook_filepath directory name)) \<noteq> Some Unexaminable)"
    "(f' (str_path (workbook_filepath directory name)) \<noteq> Some Dir \<and> f' (str_path (workbook_filepath directory name)) \<noteq> Some Unexaminable)"
    by blast+
  have r: "fst (download_workbook cfg md5 (Some s) directory cid name username w)
           = Inr (calculate_file_hash md5 (files w) (str_path (workbook_filepath directory name))
                  \<noteq> calculate_file_hash md5 f' (str_path (workbook_filepath directory name)))"
    using a by (rule download_workbook_returns)
  from changed_flag_facts [OF r a(3,4)] r show ?thesis by (rule_tac conjI)
qed

lemma datasource_changed_flag:
  assumes "should_download_file cfg (files w) (str_path (datasource_filepath directory name)) cid = Inr True
        \<and> datasources_download s cid (str_path (datasource_filepath directory name)) (files w) = (None, f')
        \<and> (files w (str_path (datasource_filepath directory name)) \<noteq> Some Dir \<and> files w (str_path (datasource_filepath directory name)) \<noteq> Some Unexaminable)
        \<and> (f' (str_path (datasource_filepath directory name)) \<noteq> Some Dir \<and> f' (str_path (datasource_filepath directory name)) \<noteq> Some Unexaminable)"
  shows "fst (download_datasource cfg md5 (Some s) directory cid name username w)
           = Inr (calculate_file_hash md5 (files w) (str_path (datasource_filepath directory name))
                  \<noteq> calculate_file_hash md5 f' (str_path (datasource_filepath directory name)))
     \<and> (files w (str_path (datasource_filepath directory name)) = f' (str_path (datasource_filepath directory name))
          \<longrightarrow> fst (download_datasource cfg md5 (Some s) directory cid name username w) = Inr False)
     \<and> (fst (download_datasource cfg md5 (Some s) directory cid name username w) = Inr True
          \<longrightarrow> files w (str_path (datasource_filepath directory name)) \<noteq> f' (str_path (datasource_filepath directory name)))
     \<and> ((\<forall>b b'. files w (str_path (datasource_filepath directory name)) = Some (File b)
                \<and> f' (str_path (datasource_filepath directory name)) = Some (File b') \<and> md5 b = md5 b' \<longrightarrow> b = b')
          \<longrightarrow> fst (download_datasource cfg md5 (Some s) directory cid name username w)
              = Inr (files w (str_path (datasource_filepath directory name)) \<noteq> f' (str_path (datasource_filepath directory name))))"
proof -
  from assms have a: "should_download_file cfg (files w) (str_path (datasource_filepath directory name)) cid = Inr True"
    "datasources_download s cid (str_path (datasource_filepath directory name)) (files w) = (None, f')"
    "(files w (str_path (datasource_filepath directory name)) \<noteq> Some Dir \<and> files w (str_path (datasource_filepath directory name)) \<noteq> Some Unexaminable)"
    "(f' (str_path (datasource_filepath directory name)) \<noteq> Some Dir \<and> f' (str_path (datasource_filepath directory name)) \<noteq> Some Unexaminable)"
    by blast+
  have r: "fst (download_datasource cfg md5 (Some s) directory cid name username w)
           = Inr (calculate_file_hash md5 (files w) (str_path (datasource_filepath directory name))
                  \<noteq> calculate_file_hash md5 f' (str_path (datasource_filepath directory name)))"
    using a by (rule download_datasource_returns)
  from changed_flag_facts [OF r a(3,4)] r show ?thesis by (rule_tac conjI)
qed

lemma workbook_filepath_example:
  "str_path (workbook_filepath ''out/Sales'' ''Q1'') = ''out/Sales/Q1.twbx''"
  by (simp add: workbook_filepath_def joinpath_def Path_def posix_root_def str_path_def)

lemma datasource_filepath_example:
  "str_path (datasource_filepath ''out/Sales_EMEA'' ''Region'') = ''out/Sales_EMEA/Region.tdsx''"
  by (simp add: datasource_filepath_def joinpath_def Path_def posix_root_def str_path_def)

text \<open>
  C1, as amended. For a workbook and for a data source: when the item is not skipped, the
  target is a regular file or absent before and after, and the remote download returns
  without raising, the reported flag is \<open>True\<close> exactly when the fingerprint taken before
  differs from the one taken after. A download that leaves the target as it was reports
  \<open>False\<close>; a reported \<open>True\<close> means the target did change; and when the digests of the two
  contents do not collide, the flag is exactly whether the target changed.
\<close>

theorem fetch_changed_flag:
  fixes f' g' :: fs and directory name cid username :: string
    and cfg :: config and md5 :: "bytes \<Rightarrow> 128 word" and s :: server and w :: world
  defines "pw \<equiv> str_path (workbook_filepath directory name)"
    and "pd \<equiv> str_path (datasource_filepath directory name)"
  defines "rw \<equiv> fst (download_workbook cfg md5 (Some s) directory cid name username w)"
    and "rd \<equiv> fst (download_datasource cfg md5 (Some s) directory cid name username w)"
  shows
    "(should_download_file cfg (files w) pw cid = Inr True
        \<and> workbooks_download s cid pw (files w) = (None, f')
        \<and> (files w pw \<noteq> Some Dir \<and> files w pw \<noteq> Some Unexaminable) \<and> (f' pw \<noteq> Some Dir \<and> f' pw \<noteq> Some Unexaminable)
      \<longrightarrow> rw = Inr (calculate_file_hash md5 (files w) pw \<noteq> calculate_file_hash md5 f' pw)
          \<and> (files w pw = f' pw \<longrightarrow> rw = Inr False)
          \<and> (rw = Inr True \<longrightarrow> files w pw \<noteq> f' pw)
          \<and> ((\<forall>b b'. files w pw = Some (File b) \<and> f' pw = Some (File b') \<and> md5 b = md5 b' \<longrightarrow> b = b')
               \<longrightarrow> rw = Inr (files w pw \<noteq> f' pw)))
     \<and> (should_download_file cfg (files w) pd cid = Inr True
        \<and> datasources_download s cid pd (files w) = (None, g')
        \<and> (files w pd \<noteq> Some Dir \<and> files w pd \<noteq> Some Unexaminable) \<and> (g' pd \<noteq> Some Dir \<and> g' pd \<noteq> Some Unexaminable)
      \<longrightarrow> rd = Inr (calculate_file_hash md5 (files w) pd \<noteq> calculate_file_hash md5 g' pd)
          \<and> (files w pd = g' pd \<longrightarrow> rd = Inr False)
          \<and> (rd = Inr True \<longrightarrow> files w pd \<noteq> g' pd)
          \<and> ((\<forall>b b'. files w pd = Some (File b) \<and> g' pd = Some (File b') \<and> md5 b = md5 b' \<longrightarrow> b = b')
               \<longrightarrow> rd = Inr (files w pd \<noteq> g' pd)))"
  unfolding pw_def pd_def rw_def rd_def
  by (rule conjI; rule impI) (erule workbook_changed_flag, erule datasource_changed_flag)

theorem fetch_changed_flag_witness:
  "\<forall>md5. fst (download_workbook default_config md5 (Some (server_of (writes [1, 2]))) ''out/Sales'' ''101'' ''Q1''
            ''admin'' empty_world) = Inr True
     \<and> fst (download_datasource overwrite_config md5 (Some (server_of (writes [7]))) ''out/Sales_EMEA'' ''201''
            ''Region'' ''admin''
            (empty_world\<lparr>files := [''out/Sales_EMEA/Region.tdsx'' \<mapsto> File [7]]\<rparr>)) = Inr False"
proof (intro allI conjI)
  fix md5 :: "bytes \<Rightarrow> 128 word"
  show "fst (download_workbook default_config md5 (Some (server_of (writes [1, 2]))) ''out/Sales'' ''101'' ''Q1''
            ''admin'' empty_world) = Inr True"
    using fetch_changed_flag [where cfg = default_config and w = empty_world and directory = "''out/Sales''"
        and name = "''Q1''" and cid = "''101''" and s = "server_of (writes [1, 2])" and ?md5.0 = md5
        and username = "''admin''" and f' = "[''out/Sales/Q1.twbx'' \<mapsto> File [1, 2]]", THEN conjunct1]
    by (auto simp add: workbook_filepath_example should_download_file_def path_exists_def empty_world_def
        server_of_def writes_def default_config_def dict_get_def)
next
  fix md5 :: "bytes \<Rightarrow> 128 word"
  let ?p = "''out/Sales_EMEA/Region.tdsx''"
  let ?w = "empty_world\<lparr>files := [?p \<mapsto> File [7]]\<rparr>"
  show "fst (download_datasource overwrite_config md5 (Some (server_of (writes [7]))) ''out/Sales_EMEA'' ''201''
            ''Region'' ''admin'' ?w) = Inr False"
    using fetch_changed_flag [where cfg = overwrite_config and w = ?w and directory = "''out/Sales_EMEA''"
        and name = "''Region''" and cid = "''201''" and s = "server_of (writes [7])" and ?md5.0 = md5
        and username = "''admin''" and g' = "[?p \<mapsto> File [7]]", THEN conjunct2]
    by (auto simp add: datasource_filepath_example should_download_file_def path_exists_def empty_world_def server_of_def
        writes_def overwrite_config_def dict_get_def)
qed

text \<open>
  C1 as stated fails for a fetch that is not skipped and whose download raises after it has
  written: the target changes from absent to one byte, the fingerprints before and after
  differ, and the fetch reports \<open>False\<close>.
\<close>

theorem failed_download_reports_unchanged:
  "\<forall>md5.
     fst (download_workbook default_config md5 (Some (server_of (writes_then_raises [1] OtherException)))
            ''out/Sales'' ''101'' ''Q1'' ''admin'' empty_world) = Inr False
   \<and> files empty_world ''out/Sales/Q1.twbx'' = None
   \<and> files (snd (download_workbook default_config md5
                     (Some (server_of (writes_then_raises [1] OtherException)))
                     ''out/Sales'' ''101'' ''Q1'' ''admin'' empty_world)) ''out/Sales/Q1.twbx''
       = Some (File [1])
   \<and> calculate_file_hash md5 (files empty_world) ''out/Sales/Q1.twbx''
       \<noteq> calculate_file_hash md5
           (files (snd (download_workbook default_config md5
                          (Some (server_of (writes_then_raises [1] OtherException)))
                          ''out/Sales'' ''101'' ''Q1'' ''admin'' empty_world)))
           ''out/Sales/Q1.twbx''"
proof
  fix md5 :: "bytes \<Rightarrow> 128 word"
  have t: "try_download md5 workbooks_download (Some (server_of (writes_then_raises [1] OtherException)))
        ''101'' ''out/Sales/Q1.twbx'' empty_world
      = (Inl OtherException, empty_world\<lparr>files := [''out/Sales/Q1.twbx'' \<mapsto> File [1]]\<rparr>)"
    by (simp add: try_download_def calculate_file_hash_def path_exists_def empty_world_def server_of_def
        writes_then_raises_def)
  have s: "should_download_file default_config (files empty_world) ''out/Sales/Q1.twbx'' ''101'' = Inr True"
    by (simp add: should_download_file_def path_exists_def empty_world_def)
  have d: "download_workbook default_config md5 (Some (server_of (writes_then_raises [1] OtherException)))
            ''out/Sales'' ''101'' ''Q1'' ''admin'' empty_world
      = (Inr False,
         logging ERROR (FailedToDownload Workbook ''Q1'' OtherException)
           (empty_world\<lparr>files := [''out/Sales/Q1.twbx'' \<mapsto> File [1]]\<rparr>))"
    unfolding download_workbook_def workbook_filepath_example Let_def
    by (simp add: s t is_Exception_def)
  show "fst (download_workbook default_config md5 (Some (server_of (writes_then_raises [1] OtherException)))
            ''out/Sales'' ''101'' ''Q1'' ''admin'' empty_world) = Inr False
   \<and> files empty_world ''out/Sales/Q1.twbx'' = None
   \<and> files (snd (download_workbook default_config md5
                     (Some (server_of (writes_then_raises [1] OtherException)))
                     ''out/Sales'' ''101'' ''Q1'' ''admin'' empty_world)) ''out/Sales/Q1.twbx''
       = Some (File [1])
   \<and> calculate_file_hash md5 (files empty_world) ''out/Sales/Q1.twbx''
       \<noteq> calculate_file_hash md5
           (files (snd (download_workbook default_config md5
                          (Some (server_of (writes_then_raises [1] OtherException)))
                          ''out/Sales'' ''101'' ''Q1'' ''admin'' empty_world)))
           ''out/Sales/Q1.twbx''"
    unfolding d
    by (simp add: logging_def empty_world_def calculate_file_hash_def path_exists_def
        hexdigest_nonempty [symmetric])
qed






section \<open>The walk\<close>

lemma process_all_append:
  "process_all mw base user (ps @ qs) w =
     (case process_all mw base user ps w of
        (Inl e, w') \<Rightarrow> (Inl e, w')
      | (Inr u, w') \<Rightarrow> process_all mw base user qs w')"
  by (induction ps arbitrary: w) (auto split: prod.splits sum.splits)

lemma projects_at_append: "projects_at idx (ks @ ls) = projects_at idx ks @ projects_at idx ls"
  by (induction ks) (auto split: option.splits)

lemma fold_max_ge_acc: "(a::nat) \<le> fold max xs a"
proof (induction xs arbitrary: a)
  case Nil
  show ?case by simp
next
  case (Cons x xs)
  have "a \<le> max x a" by simp
  also have "\<dots> \<le> fold max xs (max x a)" by (rule Cons.IH)
  finally show ?case by simp
qed

lemma fold_max_ge_elem: "x \<in> set xs \<Longrightarrow> (x::nat) \<le> fold max xs a"
proof (induction xs arbitrary: a)
  case Nil
  then show ?case by simp
next
  case (Cons y ys)
  show ?case
  proof (cases "x = y")
    case True
    have "x \<le> max y a" using True by simp
    also have "\<dots> \<le> fold max ys (max y a)" by (rule fold_max_ge_acc)
    finally show ?thesis by simp
  next
    case False
    with Cons.prems have "x \<in> set ys" by simp
    then show ?thesis using Cons.IH by simp
  qed
qed

lemma height_subtree: "t \<in> set ts \<Longrightarrow> height t < height (Node k ts)"
  using fold_max_ge_elem [of "height t" "map height ts" 0] by simp

lemma height_pos: "0 < height t"
  by (cases t) simp

lemma create_not_visitable:
  "\<not> visitable idx k \<Longrightarrow> create_and_fill_child_dir (Suc n) mw idx base k user w = Some (Inr (), w)"
  by (auto simp: visitable_def split: option.splits)

lemma for_children_visits:
  assumes skip: "\<And>k w. k \<in> set (child_ids cs) \<Longrightarrow> \<not> visitable idx k \<Longrightarrow> visit k w = Some (Inr (), w)"
    and sub: "\<And>t w. t \<in> set ts \<Longrightarrow>
          visit (label t) w = Some (process_all mw base user (projects_at idx (preorder t)) w)"
    and ts: "map label ts = filter (visitable idx) (child_ids cs)"
  shows "for_children visit cs w
     = Some (process_all mw base user (projects_at idx (concat (map preorder ts))) w)"
  using assms
proof (induction cs arbitrary: ts w)
  case Nil
  then show ?case by simp
next
  case (Cons c cs)
  show ?case
  proof (cases c)
    case (EPair a b)
    have "for_children visit cs w
        = Some (process_all mw base user (projects_at idx (concat (map preorder ts))) w)"
      using Cons.prems by (intro Cons.IH) (simp_all add: EPair)
    then show ?thesis by (simp add: EPair)
  next
    case (EStr k)
    show ?thesis
    proof (cases "visitable idx k")
      case False
      have v: "visit k w = Some (Inr (), w)"
        using Cons.prems(1) [of k w] False by (simp add: EStr)
      have "for_children visit cs w
          = Some (process_all mw base user (projects_at idx (concat (map preorder ts))) w)"
        using Cons.prems False by (intro Cons.IH) (simp_all add: EStr)
      then show ?thesis by (simp add: EStr v)
    next
      case True
      with Cons.prems(3) obtain t ts' where ts: "ts = t # ts'" and l: "label t = k"
        and rest: "map label ts' = filter (visitable idx) (child_ids cs)"
        by (cases ts) (auto simp: EStr)
      have v: "visit k w = Some (process_all mw base user (projects_at idx (preorder t)) w)"
        using Cons.prems(2) [of t w] ts l by simp
      have ih: "\<And>w'. for_children visit cs w'
          = Some (process_all mw base user (projects_at idx (concat (map preorder ts'))) w')"
        using Cons.prems(1,2) rest by (intro Cons.IH) (simp_all add: EStr ts)
      obtain r w' where p: "process_all mw base user (projects_at idx (preorder t)) w = (r, w')"
        by (cases "process_all mw base user (projects_at idx (preorder t)) w")
      show ?thesis
      proof (cases r)
        case (Inl e)
        then show ?thesis
          by (simp add: EStr v p ts process_all_append projects_at_append)
      next
        case (Inr u)
        then show ?thesis
          by (simp add: EStr v p ts process_all_append projects_at_append ih)
      qed
    qed
  qed
qed

lemma walk_is_process_all:
  "is_tree idx t \<Longrightarrow> height t < n \<Longrightarrow>
     create_and_fill_child_dir n mw idx base (label t) user w
       = Some (process_all mw base user (projects_at idx (preorder t)) w)"
proof (induction t arbitrary: n w)
  case (Node k ts)
  from Node.prems(2) obtain m where n: "n = Suc m" and m: "height (Node k ts) \<le> m"
    by (cases n) auto
  from Node.prems(1) obtain proj cs where proj: "idx k = Some proj" "proj \<noteq> []"
    and cs: "child_dirs proj = Inr cs" "map label ts = filter (visitable idx) (child_ids cs)"
    and sub: "\<And>t. t \<in> set ts \<Longrightarrow> is_tree idx t"
    by (auto simp: visitable_def children_of_def split: option.splits sum.splits)
  have m1: "\<exists>m'. m = Suc m'" using m by (cases m) auto
  have skip: "\<And>k' w'. k' \<in> set (child_ids cs) \<Longrightarrow> \<not> visitable idx k' \<Longrightarrow>
      create_and_fill_child_dir m mw idx base k' user w' = Some (Inr (), w')"
    using m1 create_not_visitable by blast
  have subw: "\<And>t w'. t \<in> set ts \<Longrightarrow>
      create_and_fill_child_dir m mw idx base (label t) user w'
        = Some (process_all mw base user (projects_at idx (preorder t)) w')"
  proof -
    fix t w' assume t: "t \<in> set ts"
    have "height t < m" using height_subtree [OF t, of k] m by simp
    with sub [OF t] t show "create_and_fill_child_dir m mw idx base (label t) user w'
        = Some (process_all mw base user (projects_at idx (preorder t)) w')"
      by (intro Node.IH)
  qed
  have loop: "\<And>w'. for_children (\<lambda>child. create_and_fill_child_dir m mw idx base child user) cs w'
      = Some (process_all mw base user (projects_at idx (concat (map preorder ts))) w')"
    using skip subw cs(2) by (rule for_children_visits)
  obtain r w' where p: "process_project_content mw proj base user w = (r, w')"
    by (cases "process_project_content mw proj base user w")
  show ?case
    by (cases r) (simp_all add: n proj cs(1) p loop)
qed

lemma reachable_trans:
  "reachable idx b c \<Longrightarrow> reachable idx a b \<Longrightarrow> reachable idx a c"
  by (induction rule: reachable.induct) (auto intro: reachable.child)

lemma preorder_reachable:
  "is_tree idx t \<Longrightarrow> k \<in> set (preorder t) \<Longrightarrow> reachable idx (label t) k"
proof (induction t arbitrary: k)
  case (Node r ts)
  show ?case
  proof (cases "k = r")
    case True
    with Node.prems(1) show ?thesis by (auto intro: reachable.root)
  next
    case False
    with Node.prems(2) obtain t where t: "t \<in> set ts" and k: "k \<in> set (preorder t)"
      by auto
    from Node.prems(1) t have it: "is_tree idx t" and v: "visitable idx r"
      and c: "children_of idx r = Some (map label ts)"
      by auto
    have "reachable idx (label t) k" using t it k by (rule Node.IH)
    moreover have "reachable idx r (label t)"
      using reachable.root [OF v] c t by (auto intro: reachable.child)
    ultimately show ?thesis by (simp add: reachable_trans)
  qed
qed

lemma subtree_at:
  "is_tree idx t \<Longrightarrow> k \<in> set (preorder t) \<Longrightarrow>
     \<exists>ss. is_tree idx (Node k ss) \<and> set (preorder (Node k ss)) \<subseteq> set (preorder t)"
proof (induction t)
  case (Node r ts)
  show ?case
  proof (cases "k = r")
    case True
    with Node.prems(1) show ?thesis by (intro exI [of _ ts]) simp
  next
    case False
    with Node.prems(2) obtain t where t: "t \<in> set ts" and k: "k \<in> set (preorder t)"
      by auto
    from Node.prems(1) t have "is_tree idx t" by simp
    with t k obtain ss where "is_tree idx (Node k ss)"
      and "set (preorder (Node k ss)) \<subseteq> set (preorder t)"
      using Node.IH by blast
    moreover have "set (preorder t) \<subseteq> set (preorder (Node r ts))" using t by auto
    ultimately show ?thesis by blast
  qed
qed

lemma label_in_preorder: "label t \<in> set (preorder t)"
  by (cases t) simp

lemma reachable_preorder:
  "reachable idx r k \<Longrightarrow> is_tree idx t \<Longrightarrow> r = label t \<Longrightarrow> k \<in> set (preorder t)"
proof (induction rule: reachable.induct)
  case root
  then show ?case by (simp add: label_in_preorder)
next
  case (child k cs c)
  then have "k \<in> set (preorder t)" by simp
  with child.prems(1) obtain ss where s: "is_tree idx (Node k ss)"
    and sub: "set (preorder (Node k ss)) \<subseteq> set (preorder t)"
    using subtree_at by blast
  from s child.hyps(2) have "cs = map label ss" by simp
  with child.hyps(3) obtain s' where "s' \<in> set ss" and "c = label s'" by auto
  then have "c \<in> set (preorder (Node k ss))"
    using label_in_preorder [of s'] by auto
  with sub show ?case by blast
qed

lemma reachable_iff_preorder:
  "is_tree idx t \<Longrightarrow> reachable idx (label t) k = (k \<in> set (preorder t))"
  using preorder_reachable reachable_preorder by blast

lemma projects_at_tree:
  "is_tree idx t \<Longrightarrow> length (projects_at idx (preorder t)) = length (preorder t)"
proof -
  assume t: "is_tree idx t"
  have "\<And>ks. (\<forall>k \<in> set ks. visitable idx k) \<Longrightarrow> length (projects_at idx ks) = length ks"
  proof -
    fix ks show "(\<forall>k \<in> set ks. visitable idx k) \<Longrightarrow> length (projects_at idx ks) = length ks"
      by (induction ks) (auto simp: visitable_def split: option.splits)
  qed
  moreover have "\<forall>k \<in> set (preorder t). visitable idx k"
  proof
    fix k assume "k \<in> set (preorder t)"
    with t obtain ss where "is_tree idx (Node k ss)" using subtree_at by blast
    then show "visitable idx k" by simp
  qed
  ultimately show ?thesis by blast
qed

lemma process_project_content_ValueError:
  "fst (process_project_content mw proj base user w) = Inl ValueError \<Longrightarrow> mw \<le> 0"
proof (rule ccontr)
  assume a: "fst (process_project_content mw proj base user w) = Inl ValueError" and "\<not> mw \<le> 0"
  have m: "\<And>as f. mkdirs as f \<noteq> Inl ValueError"
  proof -
    fix as f show "mkdirs as f \<noteq> Inl ValueError"
      by (induction as arbitrary: f) (auto split: option.splits node.splits)
  qed
  have s: "\<And>d u ts. submit_all d u ts \<noteq> Inl ValueError"
  proof -
    fix d u ts show "submit_all d u ts \<noteq> Inl ValueError"
    proof (induction ts)
      case Nil
      show ?case by simp
    next
      case (Cons t ts)
      obtain c e where t: "t = (c, e)" by (cases t)
      have "submit d u (c, e) \<noteq> Inl ValueError"
        by (cases e) (auto split: sum.splits if_splits)
      with Cons show ?case by (auto simp: t split: sum.splits simp del: submit.simps)
    qed
  qed
  have i: "\<And>v. iterate v \<noteq> Inl ValueError"
  proof -
    fix v show "iterate v \<noteq> Inl ValueError" by (cases v) simp_all
  qed
  have r: "\<And>v. replace v \<noteq> Inl ValueError"
  proof -
    fix v show "replace v \<noteq> Inl ValueError" by (cases v) simp_all
  qed
  from a \<open>\<not> mw \<le> 0\<close> show False
    unfolding process_project_content_def Let_def mkdir_def
    using m s i r
    by (auto simp: getitem_def split: sum.splits option.splits)
qed

lemma process_all_ValueError:
  "fst (process_all mw base user ps w) = Inl ValueError \<Longrightarrow> mw \<le> 0"
proof (induction ps arbitrary: w)
  case Nil
  then show ?case by simp
next
  case (Cons p ps)
  obtain r w' where p: "process_project_content mw p base user w = (r, w')"
    by (cases "process_project_content mw p base user w")
  show ?case
  proof (cases r)
    case (Inl e)
    with Cons.prems p have "fst (process_project_content mw p base user w) = Inl ValueError"
      by simp
    then show ?thesis by (rule process_project_content_ValueError)
  next
    case (Inr u)
    with Cons.prems p have "fst (process_all mw base user ps w') = Inl ValueError" by simp
    then show ?thesis by (rule Cons.IH)
  qed
qed

lemma distinct_concat_member:
  "distinct (concat xss) \<Longrightarrow> xs \<in> set xss \<Longrightarrow> distinct xs"
  by (induction xss) auto

lemma distinct_concat_disjoint:
  "distinct (concat xss) \<Longrightarrow> xs \<in> set xss \<Longrightarrow> ys \<in> set xss \<Longrightarrow> xs \<noteq> ys
     \<Longrightarrow> set xs \<inter> set ys = {}"
  by (induction xss) auto

lemma scenario_is_tree: "is_tree scenario_index scenario_tree"
  by (simp add: scenario_index_def sales_project_def emea_project_def scenario_tree_def
      visitable_def children_of_def child_dirs_def getitem_def)

lemma scenario_height: "height scenario_tree = 2"
  by (simp add: scenario_tree_def)

text \<open>
  A visit creates directories and submits downloads whose bodies are not run: it logs nothing
  and leaves no regular file on disk that was not there before, and so does the walk.
\<close>

lemma mkdirs_keeps_files:
  "mkdirs as f = Inr f' \<Longrightarrow> f' p = Some (File b) \<Longrightarrow> f p = Some (File b)"
proof (induction as arbitrary: f)
  case Nil
  then show ?case by simp
next
  case (Cons a as)
  from Cons.prems(1) have m: "mkdirs as (f(a \<mapsto> Dir)) = Inr f'"
    by (auto split: option.splits node.splits)
  from Cons.IH [OF m Cons.prems(2)] show ?case by (auto split: if_splits)
qed

lemma process_project_content_fetches_nothing:
  assumes "process_project_content mw project base_dir user w = (r, w')"
  shows "events w' = events w" and "files w' p = Some (File b) \<Longrightarrow> files w p = Some (File b)"
proof -
  from assms have "w' = w \<or> (\<exists>d f'. mkdir d (files w) = Inr f' \<and> w' = w\<lparr>files := f'\<rparr>)"
    unfolding process_project_content_def Let_def
    by (auto split: sum.splits if_splits)
  then show "events w' = events w" and "files w' p = Some (File b) \<Longrightarrow> files w p = Some (File b)"
    unfolding mkdir_def by (auto dest: mkdirs_keeps_files)
qed

lemma process_all_fetches_nothing:
  "process_all mw base_dir user projects w = (r, w') \<Longrightarrow>
     events w' = events w \<and> (files w' p = Some (File b) \<longrightarrow> files w p = Some (File b))"
proof (induction projects arbitrary: w)
  case Nil
  then show ?case by simp
next
  case (Cons proj projects)
  obtain r1 w1 where p: "process_project_content mw proj base_dir user w = (r1, w1)"
    by (cases "process_project_content mw proj base_dir user w")
  note f = process_project_content_fetches_nothing [OF p]
  show ?case
  proof (cases r1)
    case (Inl e)
    with Cons.prems p have "w' = w1" by simp
    with f show ?thesis by simp
  next
    case (Inr u)
    with Cons.prems p have "process_all mw base_dir user projects w1 = (r, w')" by simp
    from Cons.IH [OF this] f show ?thesis by simp
  qed
qed

text \<open>The visits of the scenario, on an empty disk and on one where \<^verbatim>\<open>out/Sales\<close> is a file.\<close>

lemma sales_directory:
  "joinpath (Path ''out'') ''Sales'' = \<lparr>root = [], tail = [''out'', ''Sales'']\<rparr>"
  by (simp add: joinpath_def Path_def posix_root_def)

lemma emea_directory:
  "joinpath (Path ''out'') ''Sales/EMEA'' = \<lparr>root = [], tail = [''out'', ''Sales'', ''EMEA'']\<rparr>"
  by (simp add: joinpath_def Path_def posix_root_def)

lemma sales_ancestors:
  "ancestors \<lparr>root = [], tail = [''out'', ''Sales'']\<rparr> = [''out'', ''out/Sales'']"
  by (simp add: ancestors_def str_path_def upt_rec)

lemma emea_ancestors:
  "ancestors \<lparr>root = [], tail = [''out'', ''Sales'', ''EMEA'']\<rparr>
     = [''out'', ''out/Sales'', ''out/Sales/EMEA'']"
  by (simp add: ancestors_def str_path_def upt_rec)

lemma visit_sales:
  "0 < mw \<Longrightarrow> process_project_content mw sales_project ''out'' ''admin'' empty_world
     = (Inr [DownloadWorkbookCall ''out/Sales'' ''101'' ''Q1'' ''admin''],
        empty_world\<lparr>files := [''out'' \<mapsto> Dir, ''out/Sales'' \<mapsto> Dir]\<rparr>)"
  unfolding process_project_content_def
  by (simp add: sales_project_def getitem_def replace_spaces_def sales_directory mkdir_def
      sales_ancestors str_path_def empty_world_def)

lemma visit_sales_blocked:
  "process_project_content mw sales_project ''out'' ''admin'' blocked_world
     = (Inl FileExistsError, blocked_world)"
  unfolding process_project_content_def
  by (simp add: sales_project_def getitem_def replace_spaces_def sales_directory mkdir_def
      sales_ancestors blocked_world_def)

lemma visit_emea:
  "0 < mw \<Longrightarrow> process_project_content mw emea_project ''out'' ''admin''
       (empty_world\<lparr>files := [''out'' \<mapsto> Dir, ''out/Sales'' \<mapsto> Dir]\<rparr>)
     = (Inr [DownloadDatasourceCall ''out/Sales/EMEA'' ''201'' ''Region'' ''admin''],
        empty_world\<lparr>files := [''out'' \<mapsto> Dir, ''out/Sales'' \<mapsto> Dir, ''out/Sales/EMEA'' \<mapsto> Dir]\<rparr>)"
  unfolding process_project_content_def
  by (simp add: emea_project_def getitem_def replace_spaces_def emea_directory mkdir_def
      emea_ancestors str_path_def empty_world_def)

lemma scenario_projects:
  "projects_at scenario_index [''1'', ''2''] = [sales_project, emea_project]"
  "scenario_index ''1'' = Some sales_project" "scenario_index ''2'' = Some emea_project"
  by (simp_all add: scenario_index_def)

lemma scenario_process_all:
  "process_all 2 ''out'' ''admin'' [sales_project, emea_project] empty_world
     = (Inr (), empty_world\<lparr>files := [''out'' \<mapsto> Dir, ''out/Sales'' \<mapsto> Dir, ''out/Sales/EMEA'' \<mapsto> Dir]\<rparr>)"
  by (simp add: visit_sales visit_emea)

lemma scenario_process_all_blocked:
  "process_all 2 ''out'' ''admin'' [sales_project, emea_project] blocked_world
     = (Inl FileExistsError, blocked_world)"
  by (simp add: visit_sales_blocked)

lemma scenario_visited_blocked:
  "visited_upto 2 scenario_index ''out'' ''admin'' [''1'', ''2''] blocked_world = [''1'']"
  by (simp add: scenario_projects visit_sales_blocked)

text \<open>
  The visits of the walk over a tree are those of visiting its projects in preorder: a
  beginning of the preorder, all of it when no visit raises, and otherwise ending with the
  project whose visit raised.
\<close>

lemma visited_upto_append:
  "visited_upto mw idx base user (ks @ ls) w =
     visited_upto mw idx base user ks w @
     (case process_all mw base user (projects_at idx ks) w of
        (Inl e, w') \<Rightarrow> []
      | (Inr u, w') \<Rightarrow> visited_upto mw idx base user ls w')"
proof (induction ks arbitrary: w)
  case Nil
  show ?case by simp
next
  case (Cons k ks)
  show ?case
  proof (cases "idx k")
    case None
    then show ?thesis by (simp add: Cons.IH)
  next
    case (Some proj)
    obtain r w1 where p: "process_project_content mw proj base user w = (r, w1)"
      by (cases "process_project_content mw proj base user w")
    show ?thesis by (cases r) (simp_all add: Some p Cons.IH)
  qed
qed

lemma visits_not_visitable: "\<not> visitable idx k \<Longrightarrow> visits n mw idx base k user w = []"
  by (cases n) (auto simp: visitable_def split: option.splits)

lemma for_children_visits_preorder:
  assumes skip: "\<And>k w. k \<in> set (child_ids cs) \<Longrightarrow> \<not> visitable idx k \<Longrightarrow>
          visit k w = Some (Inr (), w) \<and> visited k w = []"
    and sub: "\<And>t w. t \<in> set ts \<Longrightarrow>
          visit (label t) w = Some (process_all mw base user (projects_at idx (preorder t)) w)
          \<and> visited (label t) w = visited_upto mw idx base user (preorder t) w"
    and ts: "map label ts = filter (visitable idx) (child_ids cs)"
  shows "for_children_visits visited visit cs w
     = visited_upto mw idx base user (concat (map preorder ts)) w"
  using assms
proof (induction cs arbitrary: ts w)
  case Nil
  then show ?case by simp
next
  case (Cons c cs)
  show ?case
  proof (cases c)
    case (EPair a b)
    have "for_children_visits visited visit cs w
        = visited_upto mw idx base user (concat (map preorder ts)) w"
      using Cons.prems by (intro Cons.IH) (simp_all add: EPair)
    then show ?thesis by (simp add: EPair)
  next
    case (EStr k)
    show ?thesis
    proof (cases "visitable idx k")
      case False
      have v: "visit k w = Some (Inr (), w)" "visited k w = []"
        using Cons.prems(1) [of k w] False by (simp_all add: EStr)
      have "for_children_visits visited visit cs w
          = visited_upto mw idx base user (concat (map preorder ts)) w"
        using Cons.prems False by (intro Cons.IH) (simp_all add: EStr)
      then show ?thesis by (simp add: EStr v)
    next
      case True
      with Cons.prems(3) obtain t ts' where ts: "ts = t # ts'" and l: "label t = k"
        and rest: "map label ts' = filter (visitable idx) (child_ids cs)"
        by (cases ts) (auto simp: EStr)
      have v: "visit k w = Some (process_all mw base user (projects_at idx (preorder t)) w)"
        "visited k w = visited_upto mw idx base user (preorder t) w"
        using Cons.prems(2) [of t w] ts l by simp_all
      have ih: "\<And>w'. for_children_visits visited visit cs w'
          = visited_upto mw idx base user (concat (map preorder ts')) w'"
        using Cons.prems(1,2) rest by (intro Cons.IH) (simp_all add: EStr ts)
      obtain r w' where p: "process_all mw base user (projects_at idx (preorder t)) w = (r, w')"
        by (cases "process_all mw base user (projects_at idx (preorder t)) w")
      show ?thesis
        by (cases r) (simp_all add: EStr v p ts visited_upto_append ih)
    qed
  qed
qed

lemma walk_visits:
  "is_tree idx t \<Longrightarrow> height t < n \<Longrightarrow>
     visits n mw idx base (label t) user w = visited_upto mw idx base user (preorder t) w"
proof (induction t arbitrary: n w)
  case (Node k ts)
  from Node.prems(2) obtain m where n: "n = Suc m" and m: "height (Node k ts) \<le> m"
    by (cases n) auto
  from Node.prems(1) obtain proj cs where proj: "idx k = Some proj" "proj \<noteq> []"
    and cs: "child_dirs proj = Inr cs" "map label ts = filter (visitable idx) (child_ids cs)"
    and sub: "\<And>t. t \<in> set ts \<Longrightarrow> is_tree idx t"
    by (auto simp: visitable_def children_of_def split: option.splits sum.splits)
  have m1: "\<exists>m'. m = Suc m'" using m by (cases m) auto
  have skip: "\<And>k' w'. k' \<in> set (child_ids cs) \<Longrightarrow> \<not> visitable idx k' \<Longrightarrow>
      create_and_fill_child_dir m mw idx base k' user w' = Some (Inr (), w')
      \<and> visits m mw idx base k' user w' = []"
    using m1 create_not_visitable visits_not_visitable by blast
  have subw: "\<And>t w'. t \<in> set ts \<Longrightarrow>
      create_and_fill_child_dir m mw idx base (label t) user w'
        = Some (process_all mw base user (projects_at idx (preorder t)) w')
      \<and> visits m mw idx base (label t) user w' = visited_upto mw idx base user (preorder t) w'"
  proof -
    fix t w' assume t: "t \<in> set ts"
    have h: "height t < m" using height_subtree [OF t, of k] m by simp
    have "create_and_fill_child_dir m mw idx base (label t) user w'
        = Some (process_all mw base user (projects_at idx (preorder t)) w')"
      using sub [OF t] h by (rule walk_is_process_all)
    moreover have "visits m mw idx base (label t) user w'
        = visited_upto mw idx base user (preorder t) w'"
      using t sub [OF t] h by (rule Node.IH)
    ultimately show "create_and_fill_child_dir m mw idx base (label t) user w'
        = Some (process_all mw base user (projects_at idx (preorder t)) w')
      \<and> visits m mw idx base (label t) user w' = visited_upto mw idx base user (preorder t) w'"
      by (rule conjI)
  qed
  have loop: "\<And>w'. for_children_visits (\<lambda>child. visits m mw idx base child user)
        (\<lambda>child. create_and_fill_child_dir m mw idx base child user) cs w'
      = visited_upto mw idx base user (concat (map preorder ts)) w'"
    using skip subw cs(2) by (rule for_children_visits_preorder)
  obtain r w' where p: "process_project_content mw proj base user w = (r, w')"
    by (cases "process_project_content mw proj base user w")
  show ?case
    by (cases r) (simp_all add: n proj cs(1) p loop)
qed

lemma visited_upto_prefix:
  "\<forall>k \<in> set ks. idx k \<noteq> None \<Longrightarrow> \<exists>j. visited_upto mw idx base user ks w = take j ks"
proof (induction ks arbitrary: w)
  case Nil
  show ?case by simp
next
  case (Cons k ks)
  from Cons.prems obtain proj where proj: "idx k = Some proj" by auto
  obtain r w1 where p: "process_project_content mw proj base user w = (r, w1)"
    by (cases "process_project_content mw proj base user w")
  show ?case
  proof (cases r)
    case (Inl e)
    have "visited_upto mw idx base user (k # ks) w = take (Suc 0) (k # ks)"
      by (simp add: proj p Inl)
    then show ?thesis by (rule exI)
  next
    case (Inr u)
    from Cons.prems have "\<forall>k \<in> set ks. idx k \<noteq> None" by simp
    from Cons.IH [OF this, of w1] obtain j where
      j: "visited_upto mw idx base user ks w1 = take j ks" by blast
    have "visited_upto mw idx base user (k # ks) w = take (Suc j) (k # ks)"
      by (simp add: proj p Inr j)
    then show ?thesis by (rule exI)
  qed
qed

lemma visited_upto_all:
  "\<forall>k \<in> set ks. idx k \<noteq> None \<Longrightarrow>
     fst (process_all mw base user (projects_at idx ks) w) = Inr u \<Longrightarrow>
     visited_upto mw idx base user ks w = ks"
proof (induction ks arbitrary: w)
  case Nil
  show ?case by simp
next
  case (Cons k ks)
  from Cons.prems(1) obtain proj where proj: "idx k = Some proj" by auto
  obtain r w1 where p: "process_project_content mw proj base user w = (r, w1)"
    by (cases "process_project_content mw proj base user w")
  show ?case
  proof (cases r)
    case (Inl e)
    with Cons.prems(2) show ?thesis by (simp add: proj p)
  next
    case (Inr x)
    from Cons.prems(1) have a: "\<forall>k \<in> set ks. idx k \<noteq> None" by simp
    from Cons.prems(2) have b: "fst (process_all mw base user (projects_at idx ks) w1) = Inr u"
      by (simp add: proj p Inr)
    from Cons.IH [OF a b] show ?thesis by (simp add: proj p Inr)
  qed
qed

lemma visited_upto_raised:
  "\<forall>k \<in> set ks. idx k \<noteq> None \<Longrightarrow>
     fst (process_all mw base user (projects_at idx ks) w) = Inl e \<Longrightarrow>
     visited_upto mw idx base user ks w \<noteq> []
     \<and> fst (process_project_content mw (the (idx (last (visited_upto mw idx base user ks w)))) base user
          (snd (process_all mw base user
                  (projects_at idx (butlast (visited_upto mw idx base user ks w))) w))) = Inl e"
proof (induction ks arbitrary: w)
  case Nil
  then show ?case by simp
next
  case (Cons k ks)
  from Cons.prems(1) obtain proj where proj: "idx k = Some proj" by auto
  obtain r w1 where p: "process_project_content mw proj base user w = (r, w1)"
    by (cases "process_project_content mw proj base user w")
  show ?case
  proof (cases r)
    case (Inl x)
    with Cons.prems(2) have "x = e" by (simp add: proj p)
    then show ?thesis by (simp add: proj p Inl)
  next
    case (Inr x)
    from Cons.prems(1) have a: "\<forall>k \<in> set ks. idx k \<noteq> None" by simp
    from Cons.prems(2) have b: "fst (process_all mw base user (projects_at idx ks) w1) = Inl e"
      by (simp add: proj p Inr)
    note ih = Cons.IH [OF a b]
    define vs where "vs = visited_upto mw idx base user ks w1"
    from ih have ne: "vs \<noteq> []" and ra: "fst (process_project_content mw (the (idx (last vs))) base user
          (snd (process_all mw base user (projects_at idx (butlast vs)) w1))) = Inl e"
      unfolding vs_def by blast+
    have v: "visited_upto mw idx base user (k # ks) w = k # vs"
      by (simp add: proj p Inr vs_def)
    have "process_all mw base user (projects_at idx (butlast (k # vs))) w
        = process_all mw base user (projects_at idx (butlast vs)) w1"
      using ne by (simp add: proj p Inr)
    then show ?thesis unfolding v using ne ra by simp
  qed
qed

lemma tree_ids_in_index: "is_tree idx t \<Longrightarrow> \<forall>k \<in> set (preorder t). idx k \<noteq> None"
proof (induction t)
  case (Node k ts)
  from Node.prems have k: "idx k \<noteq> None" and sub: "\<And>t. t \<in> set ts \<Longrightarrow> is_tree idx t"
    by (auto simp: visitable_def split: option.splits)
  show ?case using k sub Node.IH by auto
qed

text \<open>
  C8, as amended. Let the index unfold, from each id of a root set, to a finite tree (a
  forest), with no project id occurring twice in the forest, and let the pool size be at
  least 1. The ids of the tree of a root are distinct and are exactly the projects reachable
  from it, and no other tree of the forest shares one of them. The walk from the root returns
  what visiting these projects one after the other, in preorder, returns, and the projects
  it visits are a beginning of that preorder, so that none is visited twice. When the walk
  returns without an exception it has visited every reachable project, each exactly once.
  When it raises, the exception is the one raised by the visit of the last project visited,
  never one for the pool size, and the reachable projects after that one are not visited. An
  id that the index does not have, or has with an empty dictionary, whether given as a root or
  listed as a child, is skipped: the call visits nothing, returns without an exception and
  leaves the world as it was.
\<close>

theorem walk_visits_reachable_projects_in_preorder:
  assumes forest: "\<forall>t \<in> set forest. is_tree idx t"
    and dist: "distinct (concat (map preorder forest))"
    and t: "t \<in> set forest"
    and n: "height t < n"
    and mw: "1 \<le> max_workers"
  shows "create_and_fill_child_dir n max_workers idx base_dir (label t) username w
           = Some (process_all max_workers base_dir username (projects_at idx (preorder t)) w)
     \<and> (\<exists>j. visits n max_workers idx base_dir (label t) username w = take j (preorder t))
     \<and> distinct (preorder t)
     \<and> (\<forall>k. (k \<in> set (preorder t)) = reachable idx (label t) k)
     \<and> (\<forall>w'. create_and_fill_child_dir n max_workers idx base_dir (label t) username w = Some (Inr (), w')
           \<longrightarrow> visits n max_workers idx base_dir (label t) username w = preorder t)
     \<and> (\<forall>e w'. create_and_fill_child_dir n max_workers idx base_dir (label t) username w = Some (Inl e, w')
           \<longrightarrow> visits n max_workers idx base_dir (label t) username w \<noteq> []
             \<and> e \<noteq> ValueError
             \<and> fst (process_project_content max_workers
                      (the (idx (last (visits n max_workers idx base_dir (label t) username w))))
                      base_dir username
                      (snd (process_all max_workers base_dir username
                              (projects_at idx
                                 (butlast (visits n max_workers idx base_dir (label t) username w)))
                              w))) = Inl e)
     \<and> (\<forall>t' \<in> set forest. preorder t' \<noteq> preorder t \<longrightarrow> set (preorder t') \<inter> set (preorder t) = {})
     \<and> (\<forall>k m w'. \<not> visitable idx k \<longrightarrow>
           create_and_fill_child_dir (Suc m) max_workers idx base_dir k username w' = Some (Inr (), w')
           \<and> visits (Suc m) max_workers idx base_dir k username w' = [])"
proof -
  from forest t have it: "is_tree idx t" by blast
  note ids = tree_ids_in_index [OF it]
  have walk: "create_and_fill_child_dir n max_workers idx base_dir (label t) username w
           = Some (process_all max_workers base_dir username (projects_at idx (preorder t)) w)"
    using it n by (rule walk_is_process_all)
  have vs: "visits n max_workers idx base_dir (label t) username w
           = visited_upto max_workers idx base_dir username (preorder t) w"
    using it n by (rule walk_visits)
  have c2: "\<exists>j. visits n max_workers idx base_dir (label t) username w = take j (preorder t)"
    unfolding vs using ids by (rule visited_upto_prefix)
  have m: "preorder t \<in> set (map preorder forest)" using t by simp
  have c3: "distinct (preorder t)"
    using dist m by (rule distinct_concat_member)
  have c4: "\<forall>k. (k \<in> set (preorder t)) = reachable idx (label t) k"
    using reachable_iff_preorder [OF it] by simp
  have c5: "\<forall>w'. create_and_fill_child_dir n max_workers idx base_dir (label t) username w = Some (Inr (), w')
           \<longrightarrow> visits n max_workers idx base_dir (label t) username w = preorder t"
  proof (intro allI impI)
    fix w'
    assume "create_and_fill_child_dir n max_workers idx base_dir (label t) username w = Some (Inr (), w')"
    then have "fst (process_all max_workers base_dir username (projects_at idx (preorder t)) w) = Inr ()"
      unfolding walk by simp
    with ids show "visits n max_workers idx base_dir (label t) username w = preorder t"
      unfolding vs by (rule visited_upto_all)
  qed
  have c6: "\<forall>e w'. create_and_fill_child_dir n max_workers idx base_dir (label t) username w = Some (Inl e, w')
           \<longrightarrow> visits n max_workers idx base_dir (label t) username w \<noteq> []
             \<and> e \<noteq> ValueError
             \<and> fst (process_project_content max_workers
                      (the (idx (last (visits n max_workers idx base_dir (label t) username w))))
                      base_dir username
                      (snd (process_all max_workers base_dir username
                              (projects_at idx
                                 (butlast (visits n max_workers idx base_dir (label t) username w)))
                              w))) = Inl e"
  proof (intro allI impI)
    fix e w'
    assume "create_and_fill_child_dir n max_workers idx base_dir (label t) username w = Some (Inl e, w')"
    then have r: "fst (process_all max_workers base_dir username (projects_at idx (preorder t)) w) = Inl e"
      unfolding walk by simp
    have "e \<noteq> ValueError"
      using process_all_ValueError [of max_workers base_dir username "projects_at idx (preorder t)" w]
        r mw by auto
    with visited_upto_raised [OF ids r]
    show "visits n max_workers idx base_dir (label t) username w \<noteq> []
             \<and> e \<noteq> ValueError
             \<and> fst (process_project_content max_workers
                      (the (idx (last (visits n max_workers idx base_dir (label t) username w))))
                      base_dir username
                      (snd (process_all max_workers base_dir username
                              (projects_at idx
                                 (butlast (visits n max_workers idx base_dir (label t) username w)))
                              w))) = Inl e"
      unfolding vs by blast
  qed
  have c7: "\<forall>t' \<in> set forest. preorder t' \<noteq> preorder t \<longrightarrow> set (preorder t') \<inter> set (preorder t) = {}"
  proof (intro ballI impI)
    fix t' assume "t' \<in> set forest" and ne: "preorder t' \<noteq> preorder t"
    then have "preorder t' \<in> set (map preorder forest)" by simp
    then show "set (preorder t') \<inter> set (preorder t) = {}"
      using dist m ne by (intro distinct_concat_disjoint [of "map preorder forest"])
  qed
  have c8: "\<forall>k m w'. \<not> visitable idx k \<longrightarrow>
           create_and_fill_child_dir (Suc m) max_workers idx base_dir k username w' = Some (Inr (), w')
           \<and> visits (Suc m) max_workers idx base_dir k username w' = []"
    using create_not_visitable visits_not_visitable by blast
  from walk c2 c3 c4 c5 c6 c7 c8 show ?thesis by (intro conjI)
qed

theorem walk_visits_reachable_projects_in_preorder_witness:
  "create_and_fill_child_dir 3 2 scenario_index ''out'' ''1'' ''admin'' empty_world
     = Some (Inr (),
             empty_world\<lparr>files := [''out'' \<mapsto> Dir, ''out/Sales'' \<mapsto> Dir, ''out/Sales/EMEA'' \<mapsto> Dir]\<rparr>)
   \<and> visits 3 2 scenario_index ''out'' ''1'' ''admin'' empty_world = [''1'', ''2'']
   \<and> distinct [''1'', ''2'']
   \<and> reachable scenario_index ''1'' ''2''
   \<and> \<not> reachable scenario_index ''1'' ''7''
   \<and> create_and_fill_child_dir (Suc 0) 2 scenario_index ''out'' ''7'' ''admin'' empty_world
     = Some (Inr (), empty_world)
   \<and> visits (Suc 0) 2 scenario_index ''out'' ''7'' ''admin'' empty_world = []"
proof -
  have h1: "\<forall>t \<in> set [scenario_tree]. is_tree scenario_index t"
    by (simp add: scenario_is_tree)
  have h2: "distinct (concat (map preorder [scenario_tree]))"
    by (simp add: scenario_tree_def)
  have h3: "scenario_tree \<in> set [scenario_tree]" by simp
  have h4: "height scenario_tree < 3" by (simp add: scenario_height)
  have h5: "(1::int) \<le> 2" by simp
  have l: "label scenario_tree = ''1''" and p: "preorder scenario_tree = [''1'', ''2'']"
    by (simp_all add: scenario_tree_def)
  have v: "\<not> visitable scenario_index ''7''"
    by (simp add: scenario_index_def visitable_def)
  note w = walk_visits_reachable_projects_in_preorder [OF h1 h2 h3 h4 h5,
      where base_dir = "''out''" and username = "''admin''" and w = empty_world,
      unfolded l p scenario_projects scenario_process_all]
  note walk = w [THEN conjunct1]
  note all = w [THEN conjunct2, THEN conjunct2, THEN conjunct2, THEN conjunct2, THEN conjunct1,
      rule_format, OF walk]
  note r = w [THEN conjunct2, THEN conjunct2, THEN conjunct2, THEN conjunct1]
  note a = w [THEN conjunct2, THEN conjunct2, THEN conjunct2, THEN conjunct2, THEN conjunct2,
      THEN conjunct2, THEN conjunct2, rule_format, OF v, of 0 empty_world]
  have r2: "reachable scenario_index ''1'' ''2''"
    using r [THEN spec, of "''2''"] by simp
  have r7: "\<not> reachable scenario_index ''1'' ''7''"
    using r [THEN spec, of "''7''"] by simp
  show ?thesis
    using walk all r2 r7 a
    by (simp del: create_and_fill_child_dir.simps visits.simps)
qed

text \<open>
  C8 as stated fails when a visit raises. In the scenario, with \<^verbatim>\<open>out/Sales\<close> a regular file
  and a pool of size 2, the visit of project 1 cannot create its directory: the walk from
  project 1 raises \<^verbatim>\<open>FileExistsError\<close>, and project 2, which is reachable from project 1, is
  not visited.
\<close>

theorem blocked_directory_ends_walk:
  "is_tree scenario_index scenario_tree \<and> label scenario_tree = ''1''
   \<and> distinct (preorder scenario_tree) \<and> height scenario_tree < 3
   \<and> reachable scenario_index ''1'' ''2''
   \<and> create_and_fill_child_dir 3 2 scenario_index ''out'' ''1'' ''admin'' blocked_world
       = Some (Inl FileExistsError, blocked_world)
   \<and> visits 3 2 scenario_index ''out'' ''1'' ''admin'' blocked_world = [''1'']
   \<and> ''2'' \<notin> set (visits 3 2 scenario_index ''out'' ''1'' ''admin'' blocked_world)"
proof -
  have l: "label scenario_tree = ''1''" and p: "preorder scenario_tree = [''1'', ''2'']"
    by (simp_all add: scenario_tree_def)
  have h: "height scenario_tree < 3" by (simp add: scenario_height)
  have r: "reachable scenario_index ''1'' ''2''"
    using reachable_iff_preorder [OF scenario_is_tree, of "''2''"] by (simp add: l p)
  have walk: "create_and_fill_child_dir 3 2 scenario_index ''out'' ''1'' ''admin'' blocked_world
       = Some (Inl FileExistsError, blocked_world)"
    using walk_is_process_all [OF scenario_is_tree h, of 2 "''out''" "''admin''" blocked_world]
    unfolding l p scenario_projects scenario_process_all_blocked .
  have vs: "visits 3 2 scenario_index ''out'' ''1'' ''admin'' blocked_world = [''1'']"
    using walk_visits [OF scenario_is_tree h, of 2 "''out''" "''admin''" blocked_world]
    unfolding l p scenario_visited_blocked .
  show ?thesis
    unfolding walk vs using scenario_is_tree l h r by (simp add: p)
qed

text \<open>
  C9. When the index unfolds from a root id to a finite tree, that is, when what is reachable
  from the root is finite and has no cycle, the walk from that root returns: there is one
  result that every call with enough nested calls allowed gives. From an id that the index
  does not have the walk returns at once.
\<close>

theorem walk_terminates:
  "(is_tree idx t \<longrightarrow>
      (\<exists>r. \<forall>n. height t < n \<longrightarrow>
         create_and_fill_child_dir n max_workers idx base_dir (label t) username w = Some r))
   \<and> (\<not> visitable idx k \<longrightarrow>
      (\<forall>n. create_and_fill_child_dir (Suc n) max_workers idx base_dir k username w = Some (Inr (), w)))"
proof (intro conjI impI allI)
  assume "is_tree idx t"
  then have "\<forall>n. height t < n \<longrightarrow>
         create_and_fill_child_dir n max_workers idx base_dir (label t) username w
           = Some (process_all max_workers base_dir username (projects_at idx (preorder t)) w)"
    by (simp add: walk_is_process_all)
  then show "\<exists>r. \<forall>n. height t < n \<longrightarrow>
         create_and_fill_child_dir n max_workers idx base_dir (label t) username w = Some r"
    by (rule exI)
next
  fix n assume "\<not> visitable idx k"
  then show "create_and_fill_child_dir (Suc n) max_workers idx base_dir k username w = Some (Inr (), w)"
    by (rule create_not_visitable)
qed

theorem walk_terminates_witness:
  "(\<exists>r. \<forall>n. 2 < n \<longrightarrow> create_and_fill_child_dir n 4 scenario_index ''out'' ''1'' ''admin'' empty_world = Some r)
   \<and> (\<forall>n. create_and_fill_child_dir (Suc n) 4 scenario_index ''out'' ''7'' ''admin'' empty_world
          = Some (Inr (), empty_world))"
proof -
  have v: "\<not> visitable scenario_index ''7''"
    by (simp add: scenario_index_def visitable_def)
  have l: "label scenario_tree = ''1''" by (simp add: scenario_tree_def)
  note w = walk_terminates [where idx = scenario_index and t = scenario_tree and k = "''7''"
      and max_workers = 4 and base_dir = "''out''" and username = "''admin''" and w = empty_world,
      unfolded l scenario_height]
  show ?thesis
    using w [THEN conjunct1, rule_format, OF scenario_is_tree] w [THEN conjunct2, rule_format, OF v]
    by (simp del: create_and_fill_child_dir.simps)
qed

section \<open>The layout on disk\<close>

lemma split_nonempty: "split c s \<noteq> []"
  by (induction s) auto

lemma split_no_sep: "c \<notin> set s \<Longrightarrow> split c s = [s]"
  by (induction s) auto

lemma split_pieces: "x \<in> set (split c s) \<Longrightarrow> c \<notin> set x"
proof (induction s arbitrary: x)
  case Nil
  then show ?case by simp
next
  case (Cons a s)
  show ?case
  proof (cases "a = c")
    case True
    with Cons show ?thesis by auto
  next
    case False
    obtain h t where ht: "split c s = h # t" using split_nonempty [of c s] by (cases "split c s") auto
    from Cons.IH ht have "c \<notin> set h" and "\<And>y. y \<in> set t \<Longrightarrow> c \<notin> set y" by auto
    with Cons.prems False ht show ?thesis by auto
  qed
qed

lemma split_append_sep: "c \<notin> set x \<Longrightarrow> split c (x @ c # s) = x # split c s"
  by (induction x) auto

lemma split_join:
  "xs \<noteq> [] \<Longrightarrow> \<forall>x \<in> set xs. c \<notin> set x \<Longrightarrow> split c (join c xs) = xs"
proof (induction c xs rule: join.induct)
  case (1 c)
  then show ?case by simp
next
  case (2 c x)
  then show ?case by (simp add: split_no_sep)
next
  case (3 c x y ys)
  then show ?case by (simp add: split_append_sep)
qed

lemma join_Cons_hd: "x \<noteq> [] \<Longrightarrow> \<exists>r. join c (x # xs) = hd x # r"
  by (cases xs; cases x) auto

lemma component_single:
  assumes "component s"
  shows "tail (Path s) = [s]" and "take 1 s \<noteq> ''/''"
proof -
  from assms have "split CHR ''/'' s = [s]" by (simp add: component_def split_no_sep)
  with assms show "tail (Path s) = [s]" by (simp add: Path_def component_def)
  from assms show "take 1 s \<noteq> ''/''" by (cases s) (auto simp: component_def)
qed

lemma joinpath_component: "component s \<Longrightarrow> joinpath p s = p\<lparr>tail := tail p @ [s]\<rparr>"
  using component_single [of s] by (simp add: joinpath_def)

lemma wf_Path: "wf_path (Path s)"
  by (auto simp: wf_path_def Path_def posix_root_def component_def dest: split_pieces)

lemma wf_snoc: "wf_path p \<Longrightarrow> component s \<Longrightarrow> wf_path (p\<lparr>tail := tail p @ [s]\<rparr>)"
  by (simp add: wf_path_def)

lemma Path_str_path_Nil:
  assumes "wf_path p" "tail p = []"
  shows "Path (str_path p) = p"
proof -
  from assms have "root p = [] \<or> root p = ''/'' \<or> root p = ''//''" by (simp add: wf_path_def)
  then show ?thesis
  proof (elim disjE)
    assume r: "root p = []"
    then have "str_path p = ''.''" using assms(2) by (simp add: str_path_def)
    moreover have "Path ''.'' = \<lparr>root = [], tail = []\<rparr>" by (simp add: Path_def posix_root_def)
    ultimately show ?thesis using r assms(2) by simp
  next
    assume r: "root p = ''/''"
    then have "str_path p = ''/''" using assms(2) by (simp add: str_path_def)
    moreover have "Path ''/'' = \<lparr>root = ''/'', tail = []\<rparr>" by (simp add: Path_def posix_root_def)
    ultimately show ?thesis using r assms(2) by simp
  next
    assume r: "root p = ''//''"
    then have "str_path p = ''//''" using assms(2) by (simp add: str_path_def)
    moreover have "Path ''//'' = \<lparr>root = ''//'', tail = []\<rparr>" by (simp add: Path_def posix_root_def)
    ultimately show ?thesis using r assms(2) by simp
  qed
qed

lemma posix_root_rel: "c \<noteq> CHR ''/'' \<Longrightarrow> posix_root (c # r) = []"
  by (simp add: posix_root_def)

lemma posix_root_abs: "c \<noteq> CHR ''/'' \<Longrightarrow> posix_root (CHR ''/'' # c # r) = ''/''"
  by (simp add: posix_root_def)

lemma posix_root_abs2: "c \<noteq> CHR ''/'' \<Longrightarrow> posix_root (CHR ''/'' # CHR ''/'' # c # r) = ''//''"
  by (simp add: posix_root_def)

lemma component_hd: "component t \<Longrightarrow> t \<noteq> [] \<and> hd t \<noteq> CHR ''/''"
  by (cases t) (auto simp: component_def)

lemma split_join_components:
  assumes "\<forall>x \<in> set (t # ts). component x"
  shows "split CHR ''/'' (join CHR ''/'' (t # ts)) = t # ts"
proof -
  have "\<forall>x \<in> set (t # ts). CHR ''/'' \<notin> set x" using assms by (simp add: component_def)
  then show ?thesis by (intro split_join) simp_all
qed

lemma filter_components:
  assumes "\<forall>x \<in> set xs. component x"
  shows "filter (\<lambda>x. x \<noteq> [] \<and> x \<noteq> ''.'') xs = xs"
  unfolding filter_id_conv using assms by (simp add: component_def)

lemma Path_str_path_Cons:
  assumes "wf_path p" "tail p = t # ts"
  shows "Path (str_path p) = p"
proof -
  from assms have c: "\<forall>x \<in> set (t # ts). component x" by (simp add: wf_path_def)
  then have "component t" by simp
  then have t: "t \<noteq> []" "hd t \<noteq> CHR ''/''"
    using component_hd by blast+
  obtain r where j: "join CHR ''/'' (t # ts) = hd t # r"
    using join_Cons_hd [OF t(1)] by blast
  have s: "split CHR ''/'' (hd t # r) = t # ts"
    using split_join_components [OF c] unfolding j .
  have f: "filter (\<lambda>x. x \<noteq> [] \<and> x \<noteq> ''.'') (t # ts) = t # ts"
    using c by (rule filter_components)
  from assms have "root p = [] \<or> root p = ''/'' \<or> root p = ''//''" by (simp add: wf_path_def)
  then show ?thesis
  proof (elim disjE)
    assume rt: "root p = []"
    have "str_path p = hd t # r" unfolding str_path_def rt assms(2) j by simp
    moreover have "Path (hd t # r) = \<lparr>root = [], tail = t # ts\<rparr>"
      unfolding Path_def s f posix_root_rel [OF t(2)] ..
    ultimately have "Path (str_path p) = \<lparr>root = root p, tail = tail p\<rparr>"
      unfolding rt assms(2) by (rule ssubst)
    then show ?thesis by simp
  next
    assume rt: "root p = ''/''"
    have "str_path p = CHR ''/'' # hd t # r" unfolding str_path_def rt assms(2) j by simp
    moreover have "split CHR ''/'' (CHR ''/'' # hd t # r) = [] # t # ts"
      unfolding split.simps(2) [of "CHR ''/''" "CHR ''/''"] s by simp
    then have "Path (CHR ''/'' # hd t # r) = \<lparr>root = ''/'', tail = t # ts\<rparr>"
      unfolding Path_def posix_root_abs [OF t(2)] using f by simp
    ultimately have "Path (str_path p) = \<lparr>root = root p, tail = tail p\<rparr>"
      unfolding rt assms(2) by (rule ssubst)
    then show ?thesis by simp
  next
    assume rt: "root p = ''//''"
    have "str_path p = CHR ''/'' # CHR ''/'' # hd t # r" unfolding str_path_def rt assms(2) j by simp
    moreover have "split CHR ''/'' (CHR ''/'' # CHR ''/'' # hd t # r) = [] # [] # t # ts"
      unfolding split.simps(2) [of "CHR ''/''" "CHR ''/''"] s by simp
    then have "Path (CHR ''/'' # CHR ''/'' # hd t # r) = \<lparr>root = ''//'', tail = t # ts\<rparr>"
      unfolding Path_def posix_root_abs2 [OF t(2)] using f by simp
    ultimately have "Path (str_path p) = \<lparr>root = root p, tail = tail p\<rparr>"
      unfolding rt assms(2) by (rule ssubst)
    then show ?thesis by simp
  qed
qed

lemma Path_str_path: "wf_path p \<Longrightarrow> Path (str_path p) = p"
  by (cases "tail p") (simp_all add: Path_str_path_Nil Path_str_path_Cons)

lemma component_twbx: "CHR ''/'' \<notin> set c \<Longrightarrow> component (c @ ''.twbx'')"
  by (auto simp: component_def append_eq_Cons_conv)

lemma component_tdsx: "CHR ''/'' \<notin> set c \<Longrightarrow> component (c @ ''.tdsx'')"
  by (auto simp: component_def append_eq_Cons_conv)

lemma project_directory_component:
  assumes "component (replace_spaces name)"
  shows "project_directory base_dir name
     = \<lparr>root = root (Path base_dir), tail = tail (Path base_dir) @ [replace_spaces name]\<rparr>"
    and "wf_path (project_directory base_dir name)"
proof -
  show e: "project_directory base_dir name
     = \<lparr>root = root (Path base_dir), tail = tail (Path base_dir) @ [replace_spaces name]\<rparr>"
    unfolding project_directory_def joinpath_component [OF assms] by simp
  have "wf_path ((Path base_dir)\<lparr>tail := tail (Path base_dir) @ [replace_spaces name]\<rparr>)"
    using wf_Path assms by (rule wf_snoc)
  then show "wf_path (project_directory base_dir name)"
    unfolding project_directory_def joinpath_component [OF assms] .
qed

lemma filepath_in_directory:
  assumes "wf_path d" "component f"
  shows "joinpath (Path (str_path d)) f = \<lparr>root = root d, tail = tail d @ [f]\<rparr>"
  unfolding Path_str_path [OF assms(1)] joinpath_component [OF assms(2)] by simp

lemma mkdirs_Dir:
  "mkdirs as f = Inr f' \<Longrightarrow> (\<forall>a. f a = Some Dir \<longrightarrow> f' a = Some Dir) \<and> (\<forall>a \<in> set as. f' a = Some Dir)"
proof (induction as arbitrary: f)
  case Nil
  then show ?case by simp
next
  case (Cons a as)
  from Cons.prems have m: "mkdirs as (f(a \<mapsto> Dir)) = Inr f'"
    by (auto split: option.splits node.splits)
  from Cons.IH [OF m] show ?case by (auto split: if_splits)
qed

lemma str_path_in_ancestors: "tail p \<noteq> [] \<Longrightarrow> str_path p \<in> set (ancestors p)"
proof -
  assume "tail p \<noteq> []"
  then have "length (tail p) \<in> set [1..<Suc (length (tail p))]" by (cases "tail p") auto
  then have "str_path (p\<lparr>tail := take (length (tail p)) (tail p)\<rparr>) \<in> set (ancestors p)"
    unfolding ancestors_def set_map by (rule imageI)
  then show ?thesis by simp
qed

lemma mkdir_Dir: "mkdir p f = Inr f' \<Longrightarrow> tail p \<noteq> [] \<Longrightarrow> f' (str_path p) = Some Dir"
  unfolding mkdir_def using mkdirs_Dir [of "ancestors p" f f'] str_path_in_ancestors [of p] by blast

lemma submit_directory: "submit d u t = Inr c \<Longrightarrow> call_directory c = d"
  by (cases t) (auto split: sum.splits kind.splits)

lemma submit_all_directory: "submit_all d u ts = Inr cs \<Longrightarrow> \<forall>c \<in> set cs. call_directory c = d"
proof (induction ts arbitrary: cs)
  case Nil
  then show ?case by simp
next
  case (Cons t ts)
  from Cons.prems obtain c cs' where c: "submit d u t = Inr c" and cs': "submit_all d u ts = Inr cs'"
    and e: "cs = c # cs'"
    by (auto split: sum.splits simp del: submit.simps)
  from submit_directory [OF c] Cons.IH [OF cs'] e show ?case by simp
qed

lemma process_project_content_directory:
  assumes n: "getitem project ''Name'' = Inr (PyStr name)"
    and r: "process_project_content mw project base_dir user w = (Inr results, w')"
    and t: "tail (project_directory base_dir name) \<noteq> []"
  shows "files w' (str_path (project_directory base_dir name)) = Some Dir
     \<and> (\<forall>c \<in> set results. call_directory c = str_path (project_directory base_dir name))"
proof -
  let ?d = "project_directory base_dir name"
  from r n obtain f' where m: "mkdir ?d (files w) = Inr f'" and w': "w' = w\<lparr>files := f'\<rparr>"
    and "\<exists>ts. submit_all (str_path ?d) user ts = Inr results"
    unfolding process_project_content_def Let_def project_directory_def
    by (auto split: sum.splits if_splits)
  then obtain ts where s: "submit_all (str_path ?d) user ts = Inr results" by blast
  from mkdir_Dir [OF m t] w' submit_all_directory [OF s] show ?thesis by simp
qed

text \<open>
  C7, as amended. \<^verbatim>\<open>process_project_content\<close> takes the directory of a project to be
  \<^verbatim>\<open>Path(base_dir) / name.replace(' ', '_')\<close>, whatever the depth at which the walk reaches the
  project: the walk hands the one \<open>base_dir\<close> to every visit. When the name with its spaces
  replaced is the name of a directory entry (not empty, not \<^verbatim>\<open>'.'\<close>, not \<^verbatim>\<open>'..'\<close>, no slash)
  and the content name has no slash, the directory is the base directory followed by that one
  entry, so the directories of a project and of its children are siblings under the base
  directory; the visit creates it, every download it submits is given it, and the target of a
  workbook is the entry \<^verbatim>\<open><content name>.twbx\<close> in it, that of a data source the entry
  \<^verbatim>\<open><content name>.tdsx\<close>.
\<close>

theorem layout_under_base_directory:
  assumes "entry_name (replace_spaces project_name)" and "CHR ''/'' \<notin> set content_name"
  shows "project_directory base_dir project_name
           = \<lparr>root = root (Path base_dir), tail = tail (Path base_dir) @ [replace_spaces project_name]\<rparr>
     \<and> workbook_filepath (str_path (project_directory base_dir project_name)) content_name
           = \<lparr>root = root (Path base_dir),
              tail = tail (Path base_dir) @ [replace_spaces project_name, content_name @ ''.twbx'']\<rparr>
     \<and> datasource_filepath (str_path (project_directory base_dir project_name)) content_name
           = \<lparr>root = root (Path base_dir),
              tail = tail (Path base_dir) @ [replace_spaces project_name, content_name @ ''.tdsx'']\<rparr>
     \<and> entry_name (content_name @ ''.twbx'') \<and> entry_name (content_name @ ''.tdsx'')
     \<and> (\<forall>max_workers project username w results w'.
           getitem project ''Name'' = Inr (PyStr project_name)
           \<and> process_project_content max_workers project base_dir username w = (Inr results, w')
           \<longrightarrow> files w' (str_path (project_directory base_dir project_name)) = Some Dir
             \<and> (\<forall>c \<in> set results.
                   call_directory c = str_path (project_directory base_dir project_name)))
     \<and> (\<forall>n max_workers idx t username w.
           is_tree idx t \<and> height t < n
           \<longrightarrow> create_and_fill_child_dir n max_workers idx base_dir (label t) username w
               = Some (process_all max_workers base_dir username (projects_at idx (preorder t)) w))"
proof -
  from assms(1) have comp: "component (replace_spaces project_name)" by (simp add: entry_name_def)
  note d = project_directory_component [OF comp, of base_dir]
  have en: "entry_name (content_name @ ''.twbx'')" "entry_name (content_name @ ''.tdsx'')"
    using component_twbx [OF assms(2)] component_tdsx [OF assms(2)] by (simp_all add: entry_name_def)
  have c1: "project_directory base_dir project_name
           = \<lparr>root = root (Path base_dir), tail = tail (Path base_dir) @ [replace_spaces project_name]\<rparr>"
    by (rule d(1))
  have "joinpath (Path (str_path (project_directory base_dir project_name))) (content_name @ ''.twbx'')
      = \<lparr>root = root (project_directory base_dir project_name),
         tail = tail (project_directory base_dir project_name) @ [content_name @ ''.twbx'']\<rparr>"
    using d(2) component_twbx [OF assms(2)] by (rule filepath_in_directory)
  then have c2: "workbook_filepath (str_path (project_directory base_dir project_name)) content_name
           = \<lparr>root = root (Path base_dir),
              tail = tail (Path base_dir) @ [replace_spaces project_name, content_name @ ''.twbx'']\<rparr>"
    unfolding workbook_filepath_def by (simp add: d(1))
  have "joinpath (Path (str_path (project_directory base_dir project_name))) (content_name @ ''.tdsx'')
      = \<lparr>root = root (project_directory base_dir project_name),
         tail = tail (project_directory base_dir project_name) @ [content_name @ ''.tdsx'']\<rparr>"
    using d(2) component_tdsx [OF assms(2)] by (rule filepath_in_directory)
  then have c3: "datasource_filepath (str_path (project_directory base_dir project_name)) content_name
           = \<lparr>root = root (Path base_dir),
              tail = tail (Path base_dir) @ [replace_spaces project_name, content_name @ ''.tdsx'']\<rparr>"
    unfolding datasource_filepath_def by (simp add: d(1))
  have t: "tail (project_directory base_dir project_name) \<noteq> []" by (simp add: d(1))
  have c4: "\<forall>max_workers project username w results w'.
           getitem project ''Name'' = Inr (PyStr project_name)
           \<and> process_project_content max_workers project base_dir username w = (Inr results, w')
           \<longrightarrow> files w' (str_path (project_directory base_dir project_name)) = Some Dir
             \<and> (\<forall>c \<in> set results.
                   call_directory c = str_path (project_directory base_dir project_name))"
  proof (intro allI impI)
    fix max_workers project username w results w'
    assume a: "getitem project ''Name'' = Inr (PyStr project_name)
           \<and> process_project_content max_workers project base_dir username w = (Inr results, w')"
    show "files w' (str_path (project_directory base_dir project_name)) = Some Dir
     \<and> (\<forall>c \<in> set results. call_directory c = str_path (project_directory base_dir project_name))"
      using a [THEN conjunct1] a [THEN conjunct2] t by (rule process_project_content_directory)
  qed
  have c5: "\<forall>n max_workers idx t username w.
           is_tree idx t \<and> height t < n
           \<longrightarrow> create_and_fill_child_dir n max_workers idx base_dir (label t) username w
               = Some (process_all max_workers base_dir username (projects_at idx (preorder t)) w)"
  proof (intro allI impI)
    fix n max_workers idx t username w
    assume a: "is_tree idx t \<and> height t < n"
    show "create_and_fill_child_dir n max_workers idx base_dir (label t) username w
               = Some (process_all max_workers base_dir username (projects_at idx (preorder t)) w)"
      using a [THEN conjunct1] a [THEN conjunct2] by (rule walk_is_process_all)
  qed
  from c1 c2 c3 en c4 c5 show ?thesis by (intro conjI)
qed

theorem layout_under_base_directory_witness:
  "project_directory ''out'' ''Sales EMEA'' = \<lparr>root = [], tail = [''out'', ''Sales_EMEA'']\<rparr>
   \<and> workbook_filepath (str_path (project_directory ''out'' ''Sales EMEA'')) ''Q1''
       = \<lparr>root = [], tail = [''out'', ''Sales_EMEA'', ''Q1.twbx'']\<rparr>
   \<and> datasource_filepath (str_path (project_directory ''out'' ''Sales EMEA'')) ''Region''
       = \<lparr>root = [], tail = [''out'', ''Sales_EMEA'', ''Region.tdsx'']\<rparr>"
proof -
  have r: "replace_spaces ''Sales EMEA'' = ''Sales_EMEA''" by (simp add: replace_spaces_def)
  have c: "entry_name (replace_spaces ''Sales EMEA'')"
    unfolding r by (simp add: entry_name_def component_def)
  have p: "Path ''out'' = \<lparr>root = [], tail = [''out'']\<rparr>" by (simp add: Path_def posix_root_def)
  have q: "CHR ''/'' \<notin> set ''Q1''" and g: "CHR ''/'' \<notin> set ''Region''" by simp_all
  note t1 = layout_under_base_directory [OF c q, of "''out''", unfolded r p]
  note t2 = layout_under_base_directory [OF c g, of "''out''", unfolded r p]
  show ?thesis
    using t1 [THEN conjunct1] t1 [THEN conjunct2, THEN conjunct1]
      t2 [THEN conjunct2, THEN conjunct2, THEN conjunct1]
    by simp
qed

text \<open>
  C7 as stated fails for a project name that is not the name of a directory entry. In the
  scenario of the specification the child project is named \<^verbatim>\<open>Sales/EMEA\<close> and its parent
  \<^verbatim>\<open>Sales\<close>: the child's directory is \<^verbatim>\<open>out/Sales/EMEA\<close>, inside the parent's \<^verbatim>\<open>out/Sales\<close> and
  not directly under \<^verbatim>\<open>out\<close>, and the target of its data source is
  \<^verbatim>\<open>out/Sales/EMEA/Region.tdsx\<close>. A project named \<^verbatim>\<open>..\<close> has the directory \<^verbatim>\<open>out/..\<close>, the parent
  of the base directory, and one named \<^verbatim>\<open>.\<close> has the base directory itself.
\<close>

lemma ancestors_example:
  "ancestors \<lparr>root = [], tail = [''out'', ''Sales'', ''EMEA'']\<rparr> = [''out'', ''out/Sales'', ''out/Sales/EMEA'']"
  by (simp add: ancestors_def str_path_def upt_rec)

theorem child_directory_nested_in_parent:
  "project_directory ''out'' ''Sales'' = \<lparr>root = [], tail = [''out'', ''Sales'']\<rparr>
   \<and> project_directory ''out'' ''Sales/EMEA'' = \<lparr>root = [], tail = [''out'', ''Sales'', ''EMEA'']\<rparr>
   \<and> fst (process_project_content 4 emea_project ''out'' ''admin'' empty_world)
       = Inr [DownloadDatasourceCall ''out/Sales/EMEA'' ''201'' ''Region'' ''admin'']
   \<and> files (snd (process_project_content 4 emea_project ''out'' ''admin'' empty_world)) ''out/Sales/EMEA''
       = Some Dir
   \<and> str_path (datasource_filepath ''out/Sales/EMEA'' ''Region'') = ''out/Sales/EMEA/Region.tdsx''
   \<and> str_path (project_directory ''out'' ''..'') = ''out/..''
   \<and> str_path (workbook_filepath ''out/..'' ''Q1'') = ''out/../Q1.twbx''
   \<and> str_path (project_directory ''out'' ''.'') = ''out''"
proof -
  have p1: "project_directory ''out'' ''Sales'' = \<lparr>root = [], tail = [''out'', ''Sales'']\<rparr>"
    by (simp add: project_directory_def joinpath_def Path_def posix_root_def replace_spaces_def)
  have p2: "project_directory ''out'' ''Sales/EMEA'' = \<lparr>root = [], tail = [''out'', ''Sales'', ''EMEA'']\<rparr>"
    by (simp add: project_directory_def joinpath_def Path_def posix_root_def replace_spaces_def)
  have j: "joinpath (Path ''out'') ''Sales/EMEA'' = \<lparr>root = [], tail = [''out'', ''Sales'', ''EMEA'']\<rparr>"
    using p2 by (simp add: project_directory_def replace_spaces_def)
  have s: "str_path \<lparr>root = [], tail = [''out'', ''Sales'', ''EMEA'']\<rparr> = ''out/Sales/EMEA''"
    by (simp add: str_path_def)
  have m: "mkdir \<lparr>root = [], tail = [''out'', ''Sales'', ''EMEA'']\<rparr> Map.empty
      = Inr [''out'' \<mapsto> Dir, ''out/Sales'' \<mapsto> Dir, ''out/Sales/EMEA'' \<mapsto> Dir]"
    by (simp add: mkdir_def ancestors_example)
  have pr: "process_project_content 4 emea_project ''out'' ''admin'' empty_world
      = (Inr [DownloadDatasourceCall ''out/Sales/EMEA'' ''201'' ''Region'' ''admin''],
         empty_world\<lparr>files := [''out'' \<mapsto> Dir, ''out/Sales'' \<mapsto> Dir, ''out/Sales/EMEA'' \<mapsto> Dir]\<rparr>)"
    unfolding process_project_content_def
    by (simp add: emea_project_def getitem_def replace_spaces_def j m s empty_world_def)
  have d: "str_path (datasource_filepath ''out/Sales/EMEA'' ''Region'') = ''out/Sales/EMEA/Region.tdsx''"
    by (simp add: datasource_filepath_def joinpath_def Path_def posix_root_def str_path_def)
  have u: "str_path (project_directory ''out'' ''..'') = ''out/..''"
    "str_path (workbook_filepath ''out/..'' ''Q1'') = ''out/../Q1.twbx''"
    "str_path (project_directory ''out'' ''.'') = ''out''"
    by (simp_all add: project_directory_def workbook_filepath_def joinpath_def Path_def posix_root_def
        replace_spaces_def str_path_def)
  show ?thesis
    unfolding pr by (simp add: p1 p2 d u)
qed

section \<open>The run: properties\<close>

lemma quiet_simps [simp]:
  "quiet []"
  "quiet (e # tr) = (e \<noteq> GitAdd \<and> \<not> task_event e \<and> quiet tr)"
  "quiet (tr @ tr') = (quiet tr \<and> quiet tr')"
  by (auto simp: quiet_def)


lemma log_and_reraise_fst [simp]: "fst (log_and_reraise msg rw) = fst rw"
  by (cases rw) (auto simp: log_and_reraise_def split: option.splits)

lemma log_and_reraise_files [simp]: "files (snd (log_and_reraise msg rw)) = files (snd rw)"
  by (cases rw) (auto simp: log_and_reraise_def logging_def split: option.splits)


lemma connect_body_files [simp]: "files (snd (snd (connect_body cfg env w))) = files w"
  by (auto simp: connect_body_def call_def logging_def split: option.splits sum.splits)



lemma connect_to_tableau_files [simp]: "files (snd (snd (connect_to_tableau cfg env w))) = files w"
proof -
  obtain srv rw where c: "connect_body cfg env w = (srv, rw)" by (cases "connect_body cfg env w")
  have "files (snd rw) = files w" using connect_body_files [of cfg env w] c by simp
  then show ?thesis by (simp add: connect_to_tableau_def c)
qed








lemma scenario_root_calls:
  "root_calls ''Tableau_Projects'' (Some ''admin'') scenario_listing
     = [CreateAndFillCall ''Tableau_Projects'' ''1'' (Some ''admin'')]"
  by (simp add: root_calls_def root_projects_def scenario_listing_def str_truthy_def)

lemma scenario_run:
  "backup_tableau 4 default_config good_env empty_world
     = (None,
        \<lparr>files = [''Tableau_Projects'' \<mapsto> Dir],
         events = [SignIn, Log INFO ConnectedToTableau,
                   Clone ''https://git.user.com/projects/test_proj'' ''Tableau_Projects'',
                   Log INFO ClonedRepository,
                   Submit (CreateAndFillCall ''Tableau_Projects'' ''1'' (Some ''admin'')),
                   Result (CreateAndFillCall ''Tableau_Projects'' ''1'' (Some ''admin'')),
                   GitAdd,
                   GitCommit ''Backup 2024-01-01 00:00:00'' ''User'' ''user@outlook.com'',
                   GitPush, Log INFO CommittedAndPushed, SignOut]\<rparr>)"
proof -
  have c: "connect_to_tableau default_config good_env empty_world
      = (Some (server_of (writes [1])), None,
         \<lparr>files = Map.empty, events = [SignIn, Log INFO ConnectedToTableau]\<rparr>)"
    by (simp add: connect_to_tableau_def connect_body_def log_and_reraise_def good_env_def
        default_config_def str_truthy_def call_def logging_def empty_world_def)
  have g: "cfg_git_repo default_config = Some ''https://git.user.com/projects/test_proj''"
    "cfg_base_dir default_config = Some ''Tableau_Projects''"
    "cfg_git_author default_config = Some (Some ''User'', Some ''user@outlook.com'')"
    by (simp_all add: default_config_def)
  have e: "clone_from good_env = (\<lambda>url base_directory f. (None, f(base_directory \<mapsto> Dir)))"
    "list_projects good_env = Inr scenario_listing" "TABLEAU_USERNAME good_env = Some ''admin''"
    "git_add good_env = None" "index_commit good_env = None" "git_push good_env = None"
    "now good_env = ''2024-01-01 00:00:00''" "sign_out good_env = None"
    "completed_at good_env = (\<lambda>c. 0)"
    by (simp_all add: good_env_def)
  show ?thesis
    unfolding backup_tableau_def backup_body_def c
    by (simp add: g e scenario_root_calls run_pool_def commit_and_push_changes_def commit_body_def
        log_and_reraise_def logging_def call_def Let_def)
qed






text \<open>
  A run hands \<^verbatim>\<open>create_and_fill_child_dir\<close>, an \<^verbatim>\<open>async def\<close> method, to the workers of its pool
  and awaits none of the coroutines they return: no project is visited and no content is
  fetched. The disk after a run is the disk before it, or what the clone made of it.
\<close>

lemma commit_and_push_changes_files:
  "files (snd (commit_and_push_changes cfg env w)) = files w"
  unfolding commit_and_push_changes_def log_and_reraise_files
  by (auto simp: commit_body_def call_def logging_def Let_def split: option.splits prod.splits)

lemma backup_body_files:
  "files (snd (snd (backup_body mw cfg env w))) = files w
   \<or> (\<exists>url base_directory. cfg_git_repo cfg = Some url \<and> cfg_base_dir cfg = Some base_directory
        \<and> files (snd (snd (backup_body mw cfg env w))) = snd (clone_from env url base_directory (files w)))"
proof -
  obtain srv r w1 where c: "connect_to_tableau cfg env w = (srv, r, w1)"
    by (cases "connect_to_tableau cfg env w") auto
  have f1: "files w1 = files w" using connect_to_tableau_files [of cfg env w] c by simp
  show ?thesis
    unfolding backup_body_def c
    by (auto simp: f1 call_def logging_def run_pool_def commit_and_push_changes_files Let_def
        split: option.splits prod.splits sum.splits)
qed

lemma backup_tableau_files:
  "files (snd (backup_tableau mw cfg env w)) = files w
   \<or> (\<exists>url base_directory. cfg_git_repo cfg = Some url \<and> cfg_base_dir cfg = Some base_directory
        \<and> files (snd (backup_tableau mw cfg env w)) = snd (clone_from env url base_directory (files w)))"
proof -
  obtain srv r w1 where b: "backup_body mw cfg env w = (srv, r, w1)"
    by (cases "backup_body mw cfg env w") auto
  obtain r' w' where l: "log_and_reraise BackupFailed (r, w1) = (r', w')"
    by (cases "log_and_reraise BackupFailed (r, w1)")
  have lf: "files w' = files w1" using log_and_reraise_files [of BackupFailed "(r, w1)"] l by simp
  have "files (snd (backup_tableau mw cfg env w)) = files w1"
    unfolding backup_tableau_def b
    by (auto simp: call_def l lf split: option.splits)
  then show ?thesis using backup_body_files [of mw cfg env w] b by simp
qed






section \<open>A failing download, its siblings and the run\<close>





section \<open>The project cache: properties\<close>

lemma root_projects_parentless:
  "set (root_projects projects) = {proj \<in> set projects. \<not> str_truthy (proj_parent_id proj)}"
  by (auto simp: root_projects_def)

lemma root_projects_single:
  "projects = before @ proj # after \<Longrightarrow> \<not> str_truthy (proj_parent_id proj)
     \<Longrightarrow> \<forall>p \<in> set (before @ after). str_truthy (proj_parent_id p)
     \<Longrightarrow> root_projects projects = [proj]"
  by (simp add: root_projects_def filter_empty_conv)

lemma cache_entry_keys:
  "getitem (cache_entry proj) ''Name'' = Inl (KeyError ''Name'')"
  "getitem (cache_entry proj) ''Workbooks'' = Inl (KeyError ''Workbooks'')"
  "getitem (cache_entry proj) ''Datasources'' = Inl (KeyError ''Datasources'')"
  "child_dirs (cache_entry proj) = Inl (KeyError ''Child Dirs'')"
  by (simp_all add: cache_entry_def getitem_def child_dirs_def)

text \<open>
  C3. The root list is as claimed: \<open>root_projects_parentless\<close> and \<open>root_projects_single\<close>.
  The record is not: an entry of the cache built by \<^verbatim>\<open>backup_tableau\<close> has the keys \<^verbatim>\<open>name\<close> and
  \<^verbatim>\<open>parent_id\<close> only, neither children nor content, while the walk reads \<^verbatim>\<open>Name\<close>,
  \<^verbatim>\<open>Workbooks\<close>, \<^verbatim>\<open>Datasources\<close> and \<^verbatim>\<open>Child Dirs\<close> from the same entry. On the listing of the
  scenario the walk from the root raises \<^verbatim>\<open>KeyError('Name')\<close> before it has touched the disk.
\<close>

theorem project_cache_lacks_what_the_walk_reads:
  "project_cache scenario_listing ''1'' = Some [(''name'', PyStr ''Sales''), (''parent_id'', PyNone)]
   \<and> project_cache scenario_listing ''2''
       = Some [(''name'', PyStr ''Sales/EMEA''), (''parent_id'', PyStr ''1'')]
   \<and> root_projects scenario_listing
       = [\<lparr>proj_id = ''1'', proj_name = ''Sales'', proj_parent_id = None\<rparr>]
   \<and> getitem [(''name'', PyStr ''Sales''), (''parent_id'', PyNone)] ''Name'' = Inl (KeyError ''Name'')
   \<and> child_dirs [(''name'', PyStr ''Sales''), (''parent_id'', PyNone)] = Inl (KeyError ''Child Dirs'')
   \<and> (\<forall>n max_workers w.
         create_and_fill_child_dir (Suc n) max_workers (project_cache scenario_listing) ''out'' ''1''
           ''admin'' w
         = Some (Inl (KeyError ''Name''), w))"
proof -
  have c1: "project_cache scenario_listing ''1'' = Some [(''name'', PyStr ''Sales''), (''parent_id'', PyNone)]"
    by (simp add: project_cache_def scenario_listing_def cache_entry_def)
  have c2: "project_cache scenario_listing ''2''
       = Some [(''name'', PyStr ''Sales/EMEA''), (''parent_id'', PyStr ''1'')]"
    by (simp add: project_cache_def scenario_listing_def cache_entry_def)
  have r: "root_projects scenario_listing
       = [\<lparr>proj_id = ''1'', proj_name = ''Sales'', proj_parent_id = None\<rparr>]"
    by (simp add: root_projects_def scenario_listing_def str_truthy_def)
  have g: "getitem [(''name'', PyStr ''Sales''), (''parent_id'', PyNone)] ''Name'' = Inl (KeyError ''Name'')"
    by (simp add: getitem_def)
  have d: "child_dirs [(''name'', PyStr ''Sales''), (''parent_id'', PyNone)] = Inl (KeyError ''Child Dirs'')"
    by (simp add: child_dirs_def getitem_def)
  have p: "\<And>max_workers w. process_project_content max_workers
        [(''name'', PyStr ''Sales''), (''parent_id'', PyNone)] ''out'' ''admin'' w
      = (Inl (KeyError ''Name''), w)"
    by (simp add: process_project_content_def g)
  have w: "\<forall>n max_workers w.
         create_and_fill_child_dir (Suc n) max_workers (project_cache scenario_listing) ''out'' ''1''
           ''admin'' w
         = Some (Inl (KeyError ''Name''), w)"
    by (simp add: c1 p)
  from c1 c2 r g d w show ?thesis by (intro conjI)
qed

end
